theory Spec2Isabelle
  imports Complex_Main "HOL-Library.Sublist" "HOL-Library.AList" "HOL-Library.Log_Nat"
begin

section \<open>Strings\<close>

text \<open>
  A JavaScript string is a sequence of UTF-16 code units. A code unit is modelled by its
  number, so a string is a list of naturals; every string of the program is such a list
  with all elements below 65536. \<open>js\<close> embeds an ASCII literal.
\<close>

type_synonym jsstring = "nat list"

definition js :: "string \<Rightarrow> jsstring" where
  "js s = map of_char s"

text \<open>
  \<^verbatim>\<open>String.prototype.trim\<close> removes the code units of WhiteSpace and LineTerminator from
  both ends: TAB, LF, VT, FF, CR, SP, NBSP, the space separators of Unicode, LS, PS and
  the byte order mark.
\<close>

definition is_js_space :: "nat \<Rightarrow> bool" where
  "is_js_space c =
     (c = 9 \<or> c = 10 \<or> c = 11 \<or> c = 12 \<or> c = 13 \<or> c = 32 \<or> c = 160 \<or> c = 5760
      \<or> (8192 \<le> c \<and> c \<le> 8202) \<or> c = 8232 \<or> c = 8233 \<or> c = 8239 \<or> c = 8287
      \<or> c = 12288 \<or> c = 65279)"

definition trim :: "jsstring \<Rightarrow> jsstring" where
  "trim s = rev (dropWhile is_js_space (rev (dropWhile is_js_space s)))"

text \<open>
  \<^verbatim>\<open>String.prototype.toLowerCase\<close> is used by the program only to compare its result with
  the words \<^verbatim>\<open>true\<close> and \<^verbatim>\<open>false\<close>. It is modelled on the letters A to Z; no other
  code unit has a lower-case form among the letters of these two words, so the
  comparisons of the program have the value they have in JavaScript.
\<close>

definition lower_unit :: "nat \<Rightarrow> nat" where
  "lower_unit c = (if 65 \<le> c \<and> c \<le> 90 then c + 32 else c)"

definition toLowerCase :: "jsstring \<Rightarrow> jsstring" where
  "toLowerCase s = map lower_unit s"

definition startsWith :: "jsstring \<Rightarrow> jsstring \<Rightarrow> bool" where
  "startsWith s p = prefix p s"

definition endsWith :: "jsstring \<Rightarrow> jsstring \<Rightarrow> bool" where
  "endsWith s p = suffix p s"

section \<open>Regular expressions of the program\<close>

text \<open>
  \<open>find_first p s\<close> is the lazy scan \<^verbatim>\<open>[\s\S]*?\<close> followed by the literal \<open>p\<close>: the text
  before the first occurrence of \<open>p\<close> in \<open>s\<close>, and the text after it.
\<close>

fun find_first :: "jsstring \<Rightarrow> jsstring \<Rightarrow> (jsstring \<times> jsstring) option" where
  "find_first p [] = (if p = [] then Some ([], []) else None)"
| "find_first p (c # cs) =
     (if prefix p (c # cs) then Some ([], drop (length p) (c # cs))
      else (case find_first p cs of
              None \<Rightarrow> None
            | Some (before, after) \<Rightarrow> Some (c # before, after)))"

text \<open>
  \<^verbatim>\<open>RegExp.prototype.exec\<close> tries the pattern at each start position from left to right and
  returns the first success. \<open>here\<close> is the pattern tried at the start of its argument,
  returning its captures and the text after the match (where a global pattern resumes).
\<close>

fun regex_exec :: "(jsstring \<Rightarrow> ('m \<times> jsstring) option) \<Rightarrow> jsstring \<Rightarrow> ('m \<times> jsstring) option" where
  "regex_exec here [] = here []"
| "regex_exec here (c # cs) =
     (case here (c # cs) of
        Some r \<Rightarrow> Some r
      | None \<Rightarrow> regex_exec here cs)"

definition open_marker :: jsstring where
  "open_marker = js ''<use_mcp_tool>''"

definition close_marker :: jsstring where
  "close_marker = js ''</use_mcp_tool>''"

text \<open>
  \<^verbatim>\<open><use_mcp_tool>([\s\S]*?)<\/use_mcp_tool>\<close> at a start position: the capture is the text
  between the opening marker and the first closing marker after it.
\<close>

definition block_here :: "jsstring \<Rightarrow> (jsstring \<times> jsstring) option" where
  "block_here s =
     (if prefix open_marker s then find_first close_marker (drop (length open_marker) s)
      else None)"

text \<open>
  \<^verbatim>\<open><([^>]+)>([\s\S]*?)<\/\1>\<close> at a start position. The name is the non-empty run of code
  units other than \<^verbatim>\<open>>\<close> after \<^verbatim>\<open><\<close>; the greedy class can give nothing back, since a
  shorter run is followed by a unit that is not \<^verbatim>\<open>>\<close>. The value ends at the first
  closing tag of that name.
\<close>

definition tag_here :: "jsstring \<Rightarrow> ((jsstring \<times> jsstring) \<times> jsstring) option" where
  "tag_here s =
     (case s of
        [] \<Rightarrow> None
      | c # s1 \<Rightarrow>
          if c \<noteq> 60 then None
          else
            let name = takeWhile (\<lambda>u. u \<noteq> 62) s1;
                r = dropWhile (\<lambda>u. u \<noteq> 62) s1
            in if name = [] \<or> r = [] then None
               else (case find_first (js ''</'' @ name @ js ''>'') (tl r) of
                       None \<Rightarrow> None
                     | Some (val, rest) \<Rightarrow> Some ((name, val), rest)))"

section \<open>Values\<close>

text \<open>
  A Number is an IEEE 754 binary64 value: not-a-number, an infinity, the negative zero,
  or a finite value (held as the rational it denotes; \<open>Fin 0\<close> is the positive zero).
\<close>

datatype jsnum = NaN | PosInf | NegInf | NegZero | Fin rat

text \<open>
  An array is the list of its elements; its prototype is \<^verbatim>\<open>Array.prototype\<close>. An object
  is its prototype and its own properties. The prototype is \<open>None\<close> for
  \<^verbatim>\<open>Object.prototype\<close>, which an object literal and \<^verbatim>\<open>JSON.parse\<close> give, or the object or
  array that an assignment to \<^verbatim>\<open>__proto__\<close> has put in its place. The own properties are
  an association list with distinct keys, in the order of their first assignment; the
  program never enumerates the keys of an object, so it does not observe this order.
  Every value of the program is finished before it is stored in another, and is not
  changed afterwards, so a stored object is held by its value.
\<close>

datatype jsval =
    JUndefined
  | JNull
  | JBool bool
  | JNum jsnum
  | JStr jsstring
  | JArr "jsval list"
  | JObj "jsval option" "(jsstring \<times> jsval) list"

fun is_object :: "jsval \<Rightarrow> bool" where
  "is_object (JArr xs) = True"
| "is_object (JObj proto props) = True"
| "is_object v = False"

text \<open>The decimal digits of a natural number: the name of an array index.\<close>

fun decimal :: "nat \<Rightarrow> jsstring" where
  "decimal n = (if n < 10 then [48 + n] else decimal (n div 10) @ [48 + n mod 10])"

declare decimal.simps [simp del]

text \<open>
  The own data properties of a value that hold a value of the program: the properties of
  an object, the elements of an array under their indices. (The \<^verbatim>\<open>length\<close> of an array is
  read apart, where it is needed.)
\<close>

fun own_property :: "jsval \<Rightarrow> jsstring \<Rightarrow> jsval option" where
  "own_property (JObj proto props) k = map_of props k"
| "own_property (JArr xs) k = map_of (zip (map decimal [0..<length xs]) xs) k"
| "own_property v k = None"

text \<open>
  The property \<open>k\<close> as the prototype chain gives it: the own property of the first value
  of the chain that has one. \<open>None\<close> when the chain reaches \<^verbatim>\<open>Object.prototype\<close> or
  \<^verbatim>\<open>Array.prototype\<close> without finding one.
\<close>

fun lookup :: "jsval \<Rightarrow> jsstring \<Rightarrow> jsval option" where
  "lookup (JObj proto props) k =
     (case map_of props k of
        Some v \<Rightarrow> Some v
      | None \<Rightarrow> (case proto of None \<Rightarrow> None | Some p \<Rightarrow> lookup p k))"
| "lookup v k = own_property v k"

text \<open>The array at the end of the prototype chain, when there is one.\<close>

fun chain_array :: "jsval \<Rightarrow> jsval list option" where
  "chain_array (JArr xs) = Some xs"
| "chain_array (JObj proto props) = (case proto of None \<Rightarrow> None | Some p \<Rightarrow> chain_array p)"
| "chain_array v = None"

text \<open>
  Property read \<^verbatim>\<open>o.k\<close>, for a key \<open>k\<close> that the built-in prototypes do not define: the
  program reads \<^verbatim>\<open>server_name\<close>, \<^verbatim>\<open>tool_name\<close> and \<^verbatim>\<open>arguments\<close>. The read follows the
  prototype chain; a key found nowhere reads as \<^verbatim>\<open>undefined\<close>.
\<close>

definition obj_get :: "jsval \<Rightarrow> jsstring \<Rightarrow> jsval" where
  "obj_get ob k = (case lookup ob k of None \<Rightarrow> JUndefined | Some v \<Rightarrow> v)"

text \<open>
  Property write \<^verbatim>\<open>o[k] = v\<close> on an object. The write creates or updates an own property
  of \<open>o\<close>, for every key but one: a write to \<^verbatim>\<open>__proto__\<close> that finds no data property of
  that name on the chain reaches the setter of \<^verbatim>\<open>Object.prototype\<close>, which makes an
  object or array \<open>v\<close> the prototype of \<open>o\<close> and ignores any other \<open>v\<close>. (All data
  properties of the chain are writable, and no other key has a setter.)
\<close>

fun obj_set :: "jsval \<Rightarrow> jsstring \<Rightarrow> jsval \<Rightarrow> jsval" where
  "obj_set (JObj proto props) k v =
     (if k = js ''__proto__'' \<and> lookup (JObj proto props) k = None
      then (if is_object v then JObj (Some v) props else JObj proto props)
      else JObj proto (AList.update k v props))"
| "obj_set ob k v = ob"

text \<open>ToBoolean, as \<^verbatim>\<open>!x\<close> and \<^verbatim>\<open>if (x)\<close> apply it.\<close>

fun truthy :: "jsval \<Rightarrow> bool" where
  "truthy JUndefined = False"
| "truthy JNull = False"
| "truthy (JBool b) = b"
| "truthy (JNum n) = (n \<noteq> NaN \<and> n \<noteq> NegZero \<and> n \<noteq> Fin 0)"
| "truthy (JStr s) = (s \<noteq> [])"
| "truthy (JArr xs) = True"
| "truthy (JObj proto props) = True"

text \<open>The two results of \<^verbatim>\<open>typeof\<close> the program tests for.\<close>

fun typeof_string :: "jsval \<Rightarrow> bool" where
  "typeof_string (JStr s) = True"
| "typeof_string v = False"

fun typeof_object :: "jsval \<Rightarrow> bool" where
  "typeof_object JNull = True"
| "typeof_object (JArr xs) = True"
| "typeof_object (JObj proto props) = True"
| "typeof_object v = False"

section \<open>Numeric literals\<close>

definition pow2 :: "int \<Rightarrow> rat" where
  "pow2 e = (if 0 \<le> e then 2 ^ nat e else 1 / 2 ^ nat (- e))"

definition pow10 :: "int \<Rightarrow> rat" where
  "pow10 e = (if 0 \<le> e then 10 ^ nat e else 1 / 10 ^ nat (- e))"

text \<open>For \<open>0 < q\<close>, the exponent \<open>e\<close> with \<open>2 ^ e \<le> q < 2 ^ (e + 1)\<close>.\<close>

definition binary_exponent :: "rat \<Rightarrow> int" where
  "binary_exponent q =
     (let e = bitlen (fst (quotient_of q)) - bitlen (snd (quotient_of q))
      in if pow2 e \<le> q then e else e - 1)"

definition round_half_even :: "rat \<Rightarrow> int" where
  "round_half_even q =
     (let f = \<lfloor>q\<rfloor>; d = q - of_int f
      in if d < 1 / 2 then f else if 1 / 2 < d then f + 1 else if even f then f else f + 1)"

text \<open>
  The Number value of a mathematical value: \<open>q \<ge> 0\<close> with its sign, rounded to the
  nearest binary64 value, ties to even; 53 bits of precision, subnormal below
  \<open>2 ^ - 1022\<close>, infinite from \<open>2 ^ 1024\<close>.
\<close>

definition round_binary64 :: "bool \<Rightarrow> rat \<Rightarrow> jsnum" where
  "round_binary64 neg q =
     (if q = 0 then (if neg then NegZero else Fin 0)
      else
        let ulp = pow2 (max (binary_exponent q) (- 1022) - 52);
            v = of_int (round_half_even (q / ulp)) * ulp
        in if pow2 1024 \<le> v then (if neg then NegInf else PosInf)
           else if v = 0 then (if neg then NegZero else Fin 0)
           else Fin (if neg then - v else v))"

definition is_digit :: "nat \<Rightarrow> bool" where
  "is_digit c = (48 \<le> c \<and> c \<le> 57)"

definition is_hex_digit :: "nat \<Rightarrow> bool" where
  "is_hex_digit c = (is_digit c \<or> (65 \<le> c \<and> c \<le> 70) \<or> (97 \<le> c \<and> c \<le> 102))"

definition digit_value :: "nat \<Rightarrow> nat" where
  "digit_value c = (if is_digit c then c - 48 else if 97 \<le> c then c - 87 else c - 55)"

definition digits_value :: "int \<Rightarrow> jsstring \<Rightarrow> int" where
  "digits_value base ds = foldl (\<lambda>a c. base * a + int (digit_value c)) 0 ds"

text \<open>SignedInteger: decimal digits after an optional sign.\<close>

definition signed_integer :: "jsstring \<Rightarrow> int option" where
  "signed_integer s =
     (let (neg, ds) = (case s of
                         [] \<Rightarrow> (False, [])
                       | c # r \<Rightarrow> if c = 43 then (False, r) else if c = 45 then (True, r) else (False, s))
      in if ds = [] \<or> \<not> list_all is_digit ds then None
         else Some (if neg then - digits_value 10 ds else digits_value 10 ds))"

text \<open>ExponentPart, optional: the whole of the text that is left.\<close>

definition exponent_part :: "jsstring \<Rightarrow> int option" where
  "exponent_part s =
     (case s of
        [] \<Rightarrow> Some 0
      | c # r \<Rightarrow> if c = 101 \<or> c = 69 then signed_integer r else None)"

text \<open>
  StrUnsignedDecimalLiteral other than \<^verbatim>\<open>Infinity\<close>: digits, an optional point and
  digits (one of the two runs of digits is not empty), an optional exponent; the value of
  the whole text, or \<open>None\<close> when the text is not such a literal.
\<close>

definition unsigned_decimal :: "jsstring \<Rightarrow> rat option" where
  "unsigned_decimal s =
     (let ip = takeWhile is_digit s;
          r1 = dropWhile is_digit s;
          pt = (r1 \<noteq> [] \<and> hd r1 = 46);
          fp = (if pt then takeWhile is_digit (tl r1) else []);
          r2 = (if pt then dropWhile is_digit (tl r1) else r1)
      in if ip = [] \<and> fp = [] then None
         else (case exponent_part r2 of
                 None \<Rightarrow> None
               | Some e \<Rightarrow> Some (of_int (digits_value 10 (ip @ fp)) * pow10 (e - int (length fp)))))"

definition str_decimal :: "bool \<Rightarrow> jsstring \<Rightarrow> jsnum" where
  "str_decimal neg s =
     (if s = js ''Infinity'' then (if neg then NegInf else PosInf)
      else (case unsigned_decimal s of
              None \<Rightarrow> NaN
            | Some q \<Rightarrow> round_binary64 neg q))"

text \<open>NonDecimalIntegerLiteral: \<^verbatim>\<open>0x\<close>, \<^verbatim>\<open>0o\<close> or \<^verbatim>\<open>0b\<close> (either case) and digits of that base.\<close>

definition non_decimal :: "jsstring \<Rightarrow> jsnum option" where
  "non_decimal s =
     (case s of
        z # x # ds \<Rightarrow>
          if z \<noteq> 48 \<or> ds = [] then None
          else if (x = 120 \<or> x = 88) \<and> list_all is_hex_digit ds
            then Some (round_binary64 False (of_int (digits_value 16 ds)))
          else if (x = 111 \<or> x = 79) \<and> list_all (\<lambda>c. 48 \<le> c \<and> c \<le> 55) ds
            then Some (round_binary64 False (of_int (digits_value 8 ds)))
          else if (x = 98 \<or> x = 66) \<and> list_all (\<lambda>c. c = 48 \<or> c = 49) ds
            then Some (round_binary64 False (of_int (digits_value 2 ds)))
          else None
      | _ \<Rightarrow> None)"

text \<open>
  \<^verbatim>\<open>Number(s)\<close> for a string (StringToNumber): white space is stripped, the empty text
  is 0, a StrNumericLiteral has its value, anything else is NaN.
\<close>

definition Number :: "jsstring \<Rightarrow> jsnum" where
  "Number s =
     (let t = trim s
      in if t = [] then Fin 0
         else (case non_decimal t of
                 Some n \<Rightarrow> n
               | None \<Rightarrow>
                   (case t of
                      [] \<Rightarrow> NaN
                    | c # r \<Rightarrow>
                        if c = 43 then str_decimal False r
                        else if c = 45 then str_decimal True r
                        else str_decimal False t)))"

definition isNaN :: "jsnum \<Rightarrow> bool" where
  "isNaN n = (n = NaN)"

section \<open>Numbers as strings\<close>

text \<open>For \<open>0 < q\<close>, the exponent \<open>n\<close> with \<open>10 ^ (n - 1) \<le> q < 10 ^ n\<close>.\<close>

definition decimal_exponent :: "rat \<Rightarrow> int" where
  "decimal_exponent q =
     (let e = int (floorlog 10 (nat (fst (quotient_of q))))
              - int (floorlog 10 (nat (snd (quotient_of q))))
      in if pow10 e \<le> q then e + 1 else e)"

definition rounds_to :: "rat \<Rightarrow> rat \<Rightarrow> bool" where
  "rounds_to v q = (round_binary64 False v = Fin q)"

text \<open>
  Number::toString on a finite Number \<open>q > 0\<close> takes the digits \<open>s\<close>, their count \<open>k\<close> and
  the exponent \<open>n\<close> with \<open>10 ^ (k - 1) \<le> s < 10 ^ k\<close> such that \<open>s * 10 ^ (n - k)\<close> has
  the Number value \<open>q\<close>, with \<open>k\<close> as small as possible and then \<open>s * 10 ^ (n - k)\<close> as
  close to \<open>q\<close> as possible (an even \<open>s\<close> when two are as close). For each \<open>k\<close> from 1
  the candidates are the two multiples of \<open>10 ^ (n - k)\<close> around \<open>q\<close>. Seventeen digits
  are enough for every Number, so the counter (started at 16 for \<open>k = 1\<close>) does not
  decide the result.
\<close>

fun shortest_digits :: "nat \<Rightarrow> nat \<Rightarrow> rat \<Rightarrow> int \<times> int \<times> nat" where
  "shortest_digits fuel k q =
     (let n = decimal_exponent q;
          p = pow10 (n - int k);
          lo = \<lfloor>q / p\<rfloor>;
          hi = lo + 1;
          lo_ok = rounds_to (of_int lo * p) q;
          hi_ok = rounds_to (of_int hi * p) q;
          low = (lo, n, k);
          high = (if hi = 10 ^ k then (10 ^ (k - 1), n + 1, k) else (hi, n, k))
      in if lo_ok \<and> hi_ok then
           (if q - of_int lo * p < of_int hi * p - q then low
            else if of_int hi * p - q < q - of_int lo * p then high
            else if even lo then low else high)
         else if lo_ok then low
         else if hi_ok then high
         else (case fuel of 0 \<Rightarrow> low | Suc fuel' \<Rightarrow> shortest_digits fuel' (Suc k) q))"

declare shortest_digits.simps [simp del]

text \<open>The digits laid out: plain, with a point, with leading zeros, or with an exponent.\<close>

definition positive_to_string :: "rat \<Rightarrow> jsstring" where
  "positive_to_string q =
     (case shortest_digits 16 1 q of
        (s, n, k) \<Rightarrow>
          let ds = decimal (nat s);
              e = n - 1;
              es = (if e < 0 then js ''-'' else js ''+'') @ decimal (nat \<bar>e\<bar>)
          in if int k \<le> n \<and> n \<le> 21 then ds @ replicate (nat (n - int k)) 48
             else if 0 < n \<and> n \<le> 21 then take (nat n) ds @ js ''.'' @ drop (nat n) ds
             else if - 6 < n \<and> n \<le> 0 then js ''0.'' @ replicate (nat (- n)) 48 @ ds
             else if k = 1 then ds @ js ''e'' @ es
             else take 1 ds @ js ''.'' @ drop 1 ds @ js ''e'' @ es)"

fun number_to_string :: "jsnum \<Rightarrow> jsstring" where
  "number_to_string NaN = js ''NaN''"
| "number_to_string PosInf = js ''Infinity''"
| "number_to_string NegInf = js ''-Infinity''"
| "number_to_string NegZero = js ''0''"
| "number_to_string (Fin q) =
     (if q = 0 then js ''0''
      else if q < 0 then js ''-'' @ positive_to_string (- q)
      else positive_to_string q)"

section \<open>JSON.parse\<close>

text \<open>
  \<^verbatim>\<open>JSON.parse(text)\<close> without a reviver, on the JSON grammar of ECMA-404: a value between
  optional white space (space, TAB, LF, CR). A SyntaxError is the result \<open>None\<close>. An
  object has the prototype \<^verbatim>\<open>Object.prototype\<close>, and each member becomes an own property,
  also one named \<^verbatim>\<open>__proto__\<close>; a repeated key keeps its place and takes the last value.
\<close>

definition json_ws :: "jsstring \<Rightarrow> jsstring" where
  "json_ws s = dropWhile (\<lambda>c. c = 32 \<or> c = 9 \<or> c = 10 \<or> c = 13) s"

text \<open>The code unit of a one-letter escape: one of \<^verbatim>\<open>" \ / b f n r t\<close>.\<close>

definition json_escape :: "nat \<Rightarrow> nat option" where
  "json_escape e =
     (if e = 34 \<or> e = 92 \<or> e = 47 then Some e
      else if e = 98 then Some 8
      else if e = 102 then Some 12
      else if e = 110 then Some 10
      else if e = 114 then Some 13
      else if e = 116 then Some 9
      else None)"

text \<open>
  The characters of a string after its opening quote, to the closing quote: the string
  and the text after it. A control character below U+0020 is not allowed unescaped.
\<close>

fun json_chars :: "jsstring \<Rightarrow> (jsstring \<times> jsstring) option" where
  "json_chars [] = None"
| "json_chars (c # cs) =
     (if c = 34 then Some ([], cs)
      else if c < 32 then None
      else if c \<noteq> 92 then
        (case json_chars cs of None \<Rightarrow> None | Some (str, r) \<Rightarrow> Some (c # str, r))
      else
        (case cs of
           [] \<Rightarrow> None
         | e # cs1 \<Rightarrow>
             if e = 117 then
               (if length cs1 < 4 \<or> \<not> list_all is_hex_digit (take 4 cs1) then None
                else (case json_chars (drop 4 cs1) of
                        None \<Rightarrow> None
                      | Some (str, r) \<Rightarrow> Some (nat (digits_value 16 (take 4 cs1)) # str, r)))
             else
               (case json_escape e of
                  None \<Rightarrow> None
                | Some u \<Rightarrow>
                    (case json_chars cs1 of
                       None \<Rightarrow> None
                     | Some (str, r) \<Rightarrow> Some (u # str, r)))))"

text \<open>
  A number: an optional minus, \<^verbatim>\<open>0\<close> or digits not starting with \<^verbatim>\<open>0\<close>, an optional
  fraction (a point and digits), an optional exponent. Each part gives what it read and
  the text after it; the number gives its Number value and the text after it.
\<close>

definition json_int :: "jsstring \<Rightarrow> (jsstring \<times> jsstring) option" where
  "json_int s =
     (case s of
        [] \<Rightarrow> None
      | c # r \<Rightarrow>
          if c = 48 then Some ([48], r)
          else if is_digit c then Some (takeWhile is_digit s, dropWhile is_digit s)
          else None)"

definition json_frac :: "jsstring \<Rightarrow> (jsstring \<times> jsstring) option" where
  "json_frac s =
     (case s of
        [] \<Rightarrow> Some ([], [])
      | c # r \<Rightarrow>
          if c \<noteq> 46 then Some ([], s)
          else if takeWhile is_digit r = [] then None
          else Some (takeWhile is_digit r, dropWhile is_digit r))"

definition json_exp :: "jsstring \<Rightarrow> (int \<times> jsstring) option" where
  "json_exp s =
     (case s of
        [] \<Rightarrow> Some (0, [])
      | c # r \<Rightarrow>
          if c \<noteq> 101 \<and> c \<noteq> 69 then Some (0, s)
          else
            let neg = (r \<noteq> [] \<and> hd r = 45);
                ds = (if r \<noteq> [] \<and> (hd r = 43 \<or> hd r = 45) then tl r else r)
            in if takeWhile is_digit ds = [] then None
               else Some (if neg then - digits_value 10 (takeWhile is_digit ds)
                          else digits_value 10 (takeWhile is_digit ds),
                          dropWhile is_digit ds))"

definition json_number :: "jsstring \<Rightarrow> (jsnum \<times> jsstring) option" where
  "json_number s =
     (let neg = (s \<noteq> [] \<and> hd s = 45)
      in case json_int (if neg then tl s else s) of
           None \<Rightarrow> None
         | Some (ip, r1) \<Rightarrow>
             (case json_frac r1 of
                None \<Rightarrow> None
              | Some (fp, r2) \<Rightarrow>
                  (case json_exp r2 of
                     None \<Rightarrow> None
                   | Some (e, r3) \<Rightarrow>
                       Some (round_binary64 neg
                               (of_int (digits_value 10 (ip @ fp)) * pow10 (e - int (length fp))),
                             r3))))"

text \<open>
  The outcome of parsing a value at the start of a text. The parser descends on a
  counter that bounds the number of nested calls; \<open>JSON_parse\<close> starts it high enough for
  its text (\<open>JSON_parse_fuel\<close> below), so the counter never decides its result.
\<close>

datatype 'a parse = Parsed 'a jsstring | SyntaxError | OutOfFuel

fun json_value :: "nat \<Rightarrow> jsstring \<Rightarrow> jsval parse"
  and json_elements :: "nat \<Rightarrow> jsval list \<Rightarrow> jsstring \<Rightarrow> jsval parse"
  and json_members :: "nat \<Rightarrow> (jsstring \<times> jsval) list \<Rightarrow> jsstring \<Rightarrow> jsval parse"
where
  "json_value 0 s = OutOfFuel"
| "json_value (Suc n) s =
     (case json_ws s of
        [] \<Rightarrow> SyntaxError
      | c # r \<Rightarrow>
          if c = 123 then
            (case json_ws r of
               [] \<Rightarrow> SyntaxError
             | c1 # r1 \<Rightarrow> if c1 = 125 then Parsed (JObj None []) r1 else json_members n [] (c1 # r1))
          else if c = 91 then
            (case json_ws r of
               [] \<Rightarrow> SyntaxError
             | c1 # r1 \<Rightarrow> if c1 = 93 then Parsed (JArr []) r1 else json_elements n [] (c1 # r1))
          else if c = 34 then
            (case json_chars r of
               None \<Rightarrow> SyntaxError
             | Some (str, r1) \<Rightarrow> Parsed (JStr str) r1)
          else if prefix (js ''true'') (c # r) then Parsed (JBool True) (drop 4 (c # r))
          else if prefix (js ''false'') (c # r) then Parsed (JBool False) (drop 5 (c # r))
          else if prefix (js ''null'') (c # r) then Parsed JNull (drop 4 (c # r))
          else
            (case json_number (c # r) of
               None \<Rightarrow> SyntaxError
             | Some (x, r1) \<Rightarrow> Parsed (JNum x) r1))"
| "json_elements 0 acc s = OutOfFuel"
| "json_elements (Suc n) acc s =
     (case json_value n s of
        OutOfFuel \<Rightarrow> OutOfFuel
      | SyntaxError \<Rightarrow> SyntaxError
      | Parsed v r \<Rightarrow>
          (case json_ws r of
             [] \<Rightarrow> SyntaxError
           | c # r1 \<Rightarrow>
               if c = 44 then json_elements n (acc @ [v]) r1
               else if c = 93 then Parsed (JArr (acc @ [v])) r1
               else SyntaxError))"
| "json_members 0 acc s = OutOfFuel"
| "json_members (Suc n) acc s =
     (case json_ws s of
        [] \<Rightarrow> SyntaxError
      | q # r \<Rightarrow>
          if q \<noteq> 34 then SyntaxError
          else
            (case json_chars r of
               None \<Rightarrow> SyntaxError
             | Some (k, r1) \<Rightarrow>
                 (case json_ws r1 of
                    [] \<Rightarrow> SyntaxError
                  | c # r2 \<Rightarrow>
                      if c \<noteq> 58 then SyntaxError
                      else
                        (case json_value n r2 of
                           OutOfFuel \<Rightarrow> OutOfFuel
                         | SyntaxError \<Rightarrow> SyntaxError
                         | Parsed v r3 \<Rightarrow>
                             (case json_ws r3 of
                                [] \<Rightarrow> SyntaxError
                              | d # r4 \<Rightarrow>
                                  if d = 44 then json_members n (AList.update k v acc) r4
                                  else if d = 125 then Parsed (JObj None (AList.update k v acc)) r4
                                  else SyntaxError)))))"

definition JSON_parse :: "jsstring \<Rightarrow> jsval option" where
  "JSON_parse text =
     (case json_value (Suc (2 * length text)) text of
        Parsed v r \<Rightarrow> if json_ws r = [] then Some v else None
      | SyntaxError \<Rightarrow> None
      | OutOfFuel \<Rightarrow> None)"

section \<open>Errors and requests\<close>

text \<open>
  The message of an error is a literal of the source, or a template literal: a literal
  followed by the value it interpolates (\<^verbatim>\<open>`Invalid tool name format: ${v}`\<close>; where the
  program builds one, ToString of \<open>v\<close> has just succeeded in the test before it).
  \<open>XmlParseError\<close> is the class of the source. \<open>TypeError\<close> is thrown by ToString,
  \<open>RangeError\<close> by a call for which the call stack has no room; \<open>OtherError\<close> is any
  other thrown value.
\<close>

datatype message = Msg jsstring | MsgValue jsstring jsval

datatype error = XmlParseError message | TypeError | RangeError | OtherError jsstring

text \<open>
  \<^verbatim>\<open>ParsedToolRequest\<close>. The fields are typed \<^verbatim>\<open>string\<close> and \<^verbatim>\<open>Record\<close> in the source, but
  \<open>parseToolRequest\<close> fills them with values of type \<^verbatim>\<open>any\<close>, so at run time each holds
  any value.
\<close>

record request =
  toolName :: jsval
  serverName :: jsval
  arguments :: jsval
  raw :: jsstring

section \<open>ToString\<close>

text \<open>A value found in an object or array is smaller than it.\<close>

lemma map_of_size:
  "map_of props k = Some v \<Longrightarrow> size v < Suc (size_list (size_prod (\<lambda>x. 0) size) props)"
  by (induction props) (auto split: if_splits)

lemma own_property_size: "own_property ob k = Some v \<Longrightarrow> size v < size ob"
proof (cases ob)
  case (JArr xs)
  assume "own_property ob k = Some v"
  with JArr have "v \<in> set xs" by (auto dest!: map_of_SomeD set_zip_rightD)
  then have "size v < Suc (size_list size xs)"
    by (induction xs) auto
  with JArr show ?thesis by simp
next
  case (JObj proto props)
  assume "own_property ob k = Some v"
  with JObj map_of_size[of props k v] show ?thesis by simp
qed simp_all

lemma lookup_size: "lookup ob k = Some v \<Longrightarrow> size v < size ob"
proof (induction ob k rule: lookup.induct)
  case (1 proto props k)
  show ?case
  proof (cases "map_of props k")
    case (Some w)
    with "1.prems" map_of_size[of props k v] show ?thesis by simp
  next
    case None
    with "1.prems" obtain p where p: "proto = Some p" "lookup p k = Some v"
      by (auto split: option.splits)
    with "1.IH"[OF None p(1)] show ?thesis by simp
  qed
qed (auto simp del: own_property.simps dest: own_property_size)

text \<open>ToString and ToNumber of a value that is not an object.\<close>

fun primitive_to_string :: "jsval \<Rightarrow> jsstring" where
  "primitive_to_string JUndefined = js ''undefined''"
| "primitive_to_string JNull = js ''null''"
| "primitive_to_string (JBool b) = (if b then js ''true'' else js ''false'')"
| "primitive_to_string (JNum n) = number_to_string n"
| "primitive_to_string (JStr s) = s"
| "primitive_to_string v = []"

fun primitive_to_number :: "jsval \<Rightarrow> jsnum" where
  "primitive_to_number JUndefined = NaN"
| "primitive_to_number JNull = Fin 0"
| "primitive_to_number (JBool b) = Fin (if b then 1 else 0)"
| "primitive_to_number (JNum n) = n"
| "primitive_to_number (JStr s) = Number s"
| "primitive_to_number v = NaN"

text \<open>ToLength of a Number: its integer part, between 0 and \<open>2 ^ 53 - 1\<close>.\<close>

fun to_length :: "jsnum \<Rightarrow> nat" where
  "to_length (Fin q) = (if q \<le> 0 then 0 else min (nat \<lfloor>q\<rfloor>) (2 ^ 53 - 1))"
| "to_length PosInf = 2 ^ 53 - 1"
| "to_length n = 0"

fun join :: "jsstring list \<Rightarrow> jsstring" where
  "join [] = []"
| "join [s] = s"
| "join (s # t # ss) = s @ js '','' @ join (t # ss)"

text \<open>The results of steps made one after the other: the first error, or all the values.\<close>

fun sequence :: "(error + 'a) list \<Rightarrow> error + 'a list" where
  "sequence [] = Inr []"
| "sequence (x # xs) =
     (case x of
        Inl e \<Rightarrow> Inl e
      | Inr a \<Rightarrow> (case sequence xs of Inl e \<Rightarrow> Inl e | Inr as \<Rightarrow> Inr (a # as)))"

text \<open>
  ToString, which \<^verbatim>\<open>RegExp.prototype.test\<close> applies to its argument. An object or array is
  converted by OrdinaryToPrimitive, which calls the method \<^verbatim>\<open>toString\<close> of the value and
  then, when that gave no primitive, the method \<^verbatim>\<open>valueOf\<close>:

  \<^item> When the chain holds a data property \<^verbatim>\<open>toString\<close>, it is no function (no value of the
    program is), and \<^verbatim>\<open>valueOf\<close> is either such a property too or the method of
    \<^verbatim>\<open>Object.prototype\<close>, which returns the object itself: a TypeError is thrown.
  \<^item> Otherwise, without an array in the chain, the method is that of \<^verbatim>\<open>Object.prototype\<close>:
    the result is \<^verbatim>\<open>[object Object]\<close>.
  \<^item> Otherwise the method is that of \<^verbatim>\<open>Array.prototype\<close>, which calls \<^verbatim>\<open>join\<close>. A data
    property \<^verbatim>\<open>join\<close> is no function, and the method of \<^verbatim>\<open>Object.prototype\<close> is called in
    its place (an array itself has no such property). \<^verbatim>\<open>Array.prototype.join\<close> reads
    \<^verbatim>\<open>length\<close> (a data property of the chain, converted by ToLength, or the length of the
    array) and then the properties named by the indices below it, and joins their
    ToString with commas, \<^verbatim>\<open>null\<close> and \<^verbatim>\<open>undefined\<close> being empty.

  ToNumber of an object, for its \<^verbatim>\<open>length\<close>, is the Number of the same primitive: the
  two methods are called in the other order, and \<^verbatim>\<open>valueOf\<close> gives no primitive.
\<close>

function to_string :: "jsval \<Rightarrow> error + jsstring" where
  "to_string v =
     (if \<not> is_object v then Inr (primitive_to_string v)
      else if lookup v (js ''toString'') \<noteq> None then Inl TypeError
      else
        (case chain_array v of
           None \<Rightarrow> Inr (js ''[object Object]'')
         | Some xs \<Rightarrow>
             if lookup v (js ''join'') \<noteq> None then Inr (js ''[object Object]'')
             else
               (case (case lookup v (js ''length'') of
                        None \<Rightarrow> Inr (length xs)
                      | Some l \<Rightarrow>
                          if is_object l
                          then (case to_string l of
                                  Inl e \<Rightarrow> Inl e
                                | Inr s \<Rightarrow> Inr (to_length (Number s)))
                          else Inr (to_length (primitive_to_number l))) of
                  Inl e \<Rightarrow> Inl e
                | Inr len \<Rightarrow>
                    (case sequence
                            (map (\<lambda>i. case lookup v (decimal i) of
                                         None \<Rightarrow> Inr []
                                       | Some x \<Rightarrow>
                                           if x = JNull \<or> x = JUndefined then Inr []
                                           else to_string x)
                               [0..<len]) of
                       Inl e \<Rightarrow> Inl e
                     | Inr strings \<Rightarrow> Inr (join strings)))))"
  by pat_completeness auto
termination
  by (relation "measure size") (auto dest: lookup_size)

declare to_string.simps [simp del]

definition is_lower :: "nat \<Rightarrow> bool" where
  "is_lower c = (97 \<le> c \<and> c \<le> 122)"

text \<open>\<^verbatim>\<open>/^[a-z][a-z0-9-]*$/\<close> and \<^verbatim>\<open>/^[a-z][a-z0-9_]*$/\<close> on a string.\<close>

definition server_name_pattern :: "jsstring \<Rightarrow> bool" where
  "server_name_pattern s =
     (case s of
        [] \<Rightarrow> False
      | c # cs \<Rightarrow> is_lower c \<and> list_all (\<lambda>u. is_lower u \<or> is_digit u \<or> u = 45) cs)"

definition tool_name_pattern :: "jsstring \<Rightarrow> bool" where
  "tool_name_pattern s =
     (case s of
        [] \<Rightarrow> False
      | c # cs \<Rightarrow> is_lower c \<and> list_all (\<lambda>u. is_lower u \<or> is_digit u \<or> u = 95) cs)"

text \<open>\<^verbatim>\<open>pattern.test(v)\<close>: the pattern on ToString of \<open>v\<close>, or the error ToString throws.\<close>

definition regex_test :: "(jsstring \<Rightarrow> bool) \<Rightarrow> jsval \<Rightarrow> error + bool" where
  "regex_test pattern v =
     (case to_string v of
        Inl e \<Rightarrow> Inl e
      | Inr s \<Rightarrow> Inr (pattern s))"

section \<open>The parser\<close>

subsection \<open>normalizeValue (lines 122 to 150)\<close>

definition normalizeValue :: "jsstring \<Rightarrow> jsval" where
  "normalizeValue v =
     (let trimmed = trim v
      in if trimmed = [] then JStr []
         else if toLowerCase trimmed = js ''true'' then JBool True
         else if toLowerCase trimmed = js ''false'' then JBool False
         else if \<not> isNaN (Number trimmed) \<and> trimmed \<noteq> [] then JNum (Number trimmed)
         else if (startsWith trimmed (js ''{'') \<and> endsWith trimmed (js ''}''))
               \<or> (startsWith trimmed (js ''['') \<and> endsWith trimmed (js '']''))
           then (case JSON_parse trimmed of
                   Some parsed \<Rightarrow> parsed
                 | None \<Rightarrow> JStr trimmed)
         else JStr trimmed)"

subsection \<open>hasNestedTags (lines 155 to 158)\<close>

definition hasNestedTags :: "jsstring \<Rightarrow> bool" where
  "hasNestedTags content = (regex_exec tag_here (trim content) \<noteq> None)"

subsection \<open>Where a match leaves the text\<close>

text \<open>
  A match of either pattern splits the text it is tried on; what is left after it, and the
  value captured in it, are shorter than the text. The loops below terminate by this.
\<close>

lemma find_first_decomp: "find_first p s = Some (b, a) \<Longrightarrow> s = b @ p @ a"
proof (induction s arbitrary: b a)
  case Nil
  then show ?case by (simp split: if_splits)
next
  case (Cons c cs)
  show ?case
  proof (cases "prefix p (c # cs)")
    case True
    with Cons.prems have "b = []" "a = drop (length p) (c # cs)" by simp_all
    with True show ?thesis by (metis append_Nil append_eq_conv_conj prefixE)
  next
    case False
    with Cons.prems obtain b' where "find_first p cs = Some (b', a)" "b = c # b'"
      by (auto split: option.splits)
    with Cons.IH show ?thesis by simp
  qed
qed

lemma regex_exec_Some:
  "regex_exec here s = Some r \<Longrightarrow> \<exists>pre t. s = pre @ t \<and> here t = Some r"
proof (induction s)
  case Nil
  then show ?case by simp
next
  case (Cons c cs)
  show ?case
  proof (cases "here (c # cs)")
    case None
    with Cons obtain pre t where "cs = pre @ t" "here t = Some r" by auto
    then have "c # cs = (c # pre) @ t" by simp
    with \<open>here t = Some r\<close> show ?thesis by blast
  next
    case (Some x)
    with Cons.prems have "here (c # cs) = Some r" by simp
    then show ?thesis by (metis append_Nil)
  qed
qed

lemma block_here_decomp:
  "block_here s = Some (c, r) \<Longrightarrow> s = open_marker @ c @ close_marker @ r"
  unfolding block_here_def
  by (auto split: if_splits dest!: find_first_decomp elim!: prefixE)

lemma tag_here_decomp:
  assumes "tag_here s = Some ((n, v), r)"
  shows "s = 60 # n @ 62 # v @ js ''</'' @ n @ js ''>'' @ r \<and> n \<noteq> [] \<and> 62 \<notin> set n"
proof -
  from assms obtain s1 where s: "s = 60 # s1"
    by (cases s) (auto simp: tag_here_def split: if_splits)
  define rr where "rr = dropWhile (\<lambda>u. u \<noteq> 62) s1"
  from assms s have n: "n = takeWhile (\<lambda>u. u \<noteq> 62) s1" and ne: "n \<noteq> []" and rne: "rr \<noteq> []"
    and ff: "find_first (js ''</'' @ n @ js ''>'') (tl rr) = Some (v, r)"
    by (auto simp: tag_here_def Let_def rr_def split: if_splits option.splits)
  have "s1 = n @ rr" by (simp add: n rr_def)
  moreover from rne have "hd rr = 62" using hd_dropWhile[of "\<lambda>u. u \<noteq> 62" s1] by (simp add: rr_def)
  with rne have "rr = 62 # tl rr" by (cases rr) auto
  moreover from ff have "tl rr = v @ (js ''</'' @ n @ js ''>'') @ r" by (rule find_first_decomp)
  moreover have "62 \<notin> set n" unfolding n by (auto dest: set_takeWhileD)
  ultimately show ?thesis using s ne by simp
qed

lemma regex_exec_block_shorter:
  "regex_exec block_here s = Some (c, r) \<Longrightarrow> length r < length s"
  by (auto dest!: regex_exec_Some block_here_decomp simp: open_marker_def js_def)

lemma regex_exec_tag_shorter:
  "regex_exec tag_here s = Some ((n, v), r) \<Longrightarrow> length r < length s \<and> length v < length s"
  by (auto dest!: regex_exec_Some tag_here_decomp)

subsection \<open>parseParameters (lines 95 to 117)\<close>

text \<open>
  Every function of the source that can throw returns a sum, the error on the left. The
  \<^verbatim>\<open>while\<close> loop over the matches is \<open>parseParameters_loop\<close>, with the object built so far
  and the text after the last match. The recursive call of line 106 is the parameter
  \<open>nested\<close>; lines 107 to 110 catch whatever it throws.
\<close>

function parseParameters_loop ::
  "(jsstring \<Rightarrow> error + jsval) \<Rightarrow> jsval \<Rightarrow> jsstring \<Rightarrow> error + jsval" where
  "parseParameters_loop nested parameters content =
     (case regex_exec tag_here content of
        None \<Rightarrow> Inr parameters
      | Some ((paramName, paramValue), rest) \<Rightarrow>
          parseParameters_loop nested
            (obj_set parameters paramName
               (if hasNestedTags paramValue
                then (case nested paramValue of
                        Inr tree \<Rightarrow> tree
                      | Inl e \<Rightarrow> normalizeValue paramValue)
                else normalizeValue paramValue))
            rest)"
  by pat_completeness auto
termination
  by (relation "measure (\<lambda>(nested, parameters, content). length content)")
     (auto dest: regex_exec_tag_shorter)

declare parseParameters_loop.simps [simp del]

text \<open>
  \<open>parseParameters\<close>, called when the call stack has room for \<open>depth\<close> nested calls of
  it. A call for which there is no room throws a RangeError (\<^verbatim>\<open>Maximum call stack size
  exceeded\<close>); a call for which there is room runs the loop on an empty object, its
  recursive calls finding room for one call less. This recursion is the only one of the
  program, and the only use of the stack that is followed: a call that has room is taken
  to have room for the calls it makes of the functions that do not recurse.
\<close>

fun parseParameters :: "nat \<Rightarrow> jsstring \<Rightarrow> error + jsval" where
  "parseParameters 0 content = Inl RangeError"
| "parseParameters (Suc depth) content =
     parseParameters_loop (parseParameters depth) (JObj None []) content"

subsection \<open>validateToolRequest and isValidToolName (lines 163 to 195)\<close>

definition isValidToolName :: "jsval \<Rightarrow> error + bool" where
  "isValidToolName name = regex_test tool_name_pattern name"

definition validateToolRequest :: "request \<Rightarrow> error + unit" where
  "validateToolRequest request =
     (if \<not> truthy (toolName request) then
        Inl (XmlParseError (Msg (js ''Missing tool name'')))
      else if \<not> truthy (serverName request) then
        Inl (XmlParseError (Msg (js ''Missing server_name in tool request'')))
      else if \<not> truthy (arguments request) \<or> \<not> typeof_object (arguments request) then
        Inl (XmlParseError (Msg (js ''Invalid or missing arguments in tool request'')))
      else
        (case regex_test server_name_pattern (serverName request) of
           Inl e \<Rightarrow> Inl e
         | Inr matched \<Rightarrow>
             if \<not> matched then
               Inl (XmlParseError (MsgValue (js ''Invalid server name format: '') (serverName request)))
             else
               (case isValidToolName (toolName request) of
                  Inl e \<Rightarrow> Inl e
                | Inr valid \<Rightarrow>
                    if \<not> valid then
                      Inl (XmlParseError (MsgValue (js ''Invalid tool name format: '') (toolName request)))
                    else Inr ())))"

subsection \<open>parseToolRequest (lines 49 to 90)\<close>

text \<open>Lines 58 to 89: the request built from the parsed parameters of a block.\<close>

definition requestOfParams :: "jsstring \<Rightarrow> jsval \<Rightarrow> error + request" where
  "requestOfParams text params =
     (if \<not> truthy (obj_get params (js ''server_name'')) then
        Inl (XmlParseError (Msg (js ''Missing server_name in tool request'')))
      else if \<not> truthy (obj_get params (js ''tool_name'')) then
        Inl (XmlParseError (Msg (js ''Missing tool_name in tool request'')))
      else if \<not> truthy (obj_get params (js ''arguments'')) then
        Inl (XmlParseError (Msg (js ''Missing arguments in tool request'')))
      else
        (case (case obj_get params (js ''arguments'') of
                 JStr str \<Rightarrow>
                   (case JSON_parse str of
                      None \<Rightarrow> Inl (XmlParseError (Msg (js ''Invalid JSON in tool arguments'')))
                    | Some parsed \<Rightarrow> Inr parsed)
               | other \<Rightarrow> Inr other) of
           Inl e \<Rightarrow> Inl e
         | Inr toolArguments \<Rightarrow>
             (let request = \<lparr> toolName = obj_get params (js ''tool_name''),
                              serverName = obj_get params (js ''server_name''),
                              arguments = toolArguments,
                              raw = text \<rparr>
              in case validateToolRequest request of
                   Inl e \<Rightarrow> Inl e
                 | Inr u \<Rightarrow> Inr request)))"

text \<open>The whole function, called with room on the stack for \<open>depth\<close> calls of \<open>parseParameters\<close>.\<close>

definition parseToolRequest :: "nat \<Rightarrow> jsstring \<Rightarrow> error + request" where
  "parseToolRequest depth text =
     (case regex_exec block_here text of
        None \<Rightarrow> Inl (XmlParseError (Msg (js ''Invalid tool request format'')))
      | Some (content, rest) \<Rightarrow>
          (case parseParameters depth content of
             Inl e \<Rightarrow> Inl e
           | Inr params \<Rightarrow> requestOfParams text params))"

subsection \<open>parseToolRequests (lines 23 to 44)\<close>

text \<open>
  The state of the loop is the list \<^verbatim>\<open>requests\<close>, the messages passed to \<^verbatim>\<open>logger.warn\<close>
  so far (each is logged after the words \<^verbatim>\<open>Skipping invalid tool request: \<close>) and the text
  after the last match. The result is what the call returns or throws, with the messages
  logged. The call of line 32 is the parameter \<open>build\<close>; the program passes
  \<open>parseToolRequest\<close>.
\<close>

function parseToolRequests_loop ::
  "(jsstring \<Rightarrow> error + request) \<Rightarrow> request list \<Rightarrow> message list \<Rightarrow> jsstring
     \<Rightarrow> (error + request list) \<times> message list" where
  "parseToolRequests_loop build requests warned text =
     (case regex_exec block_here text of
        None \<Rightarrow> (Inr requests, warned)
      | Some (content, rest) \<Rightarrow>
          (case build (open_marker @ content @ close_marker) of
             Inr request \<Rightarrow> parseToolRequests_loop build (requests @ [request]) warned rest
           | Inl thrown \<Rightarrow>
               (case thrown of
                  XmlParseError m \<Rightarrow> parseToolRequests_loop build requests (warned @ [m]) rest
                | _ \<Rightarrow> (Inl thrown, warned))))"
  by pat_completeness auto
termination
  by (relation "measure (\<lambda>(build, requests, warned, text). length text)")
     (auto dest: regex_exec_block_shorter)

declare parseToolRequests_loop.simps [simp del]

definition parseToolRequests_with ::
  "(jsstring \<Rightarrow> error + request) \<Rightarrow> jsstring \<Rightarrow> (error + request list) \<times> message list" where
  "parseToolRequests_with build text = parseToolRequests_loop build [] [] text"

definition parseToolRequests :: "nat \<Rightarrow> jsstring \<Rightarrow> (error + request list) \<times> message list" where
  "parseToolRequests depth text = parseToolRequests_with (parseToolRequest depth) text"

text \<open>The blocks the loop of \<open>parseToolRequests\<close> matches, in the order it matches them.\<close>

function blocks :: "jsstring \<Rightarrow> jsstring list" where
  "blocks text =
     (case regex_exec block_here text of
        None \<Rightarrow> []
      | Some (content, rest) \<Rightarrow> (open_marker @ content @ close_marker) # blocks rest)"
  by pat_completeness auto
termination
  by (relation "measure length") (auto dest: regex_exec_block_shorter)

declare blocks.simps [simp del]

text \<open>The matches of the loop of \<open>parseParameters\<close>: name and captured value, in order.\<close>

function tag_matches :: "jsstring \<Rightarrow> (jsstring \<times> jsstring) list" where
  "tag_matches content =
     (case regex_exec tag_here content of
        None \<Rightarrow> []
      | Some (m, rest) \<Rightarrow> m # tag_matches rest)"
  by pat_completeness auto
termination
  by (relation "measure length") (auto dest: regex_exec_tag_shorter)

declare tag_matches.simps [simp del]

section \<open>Notions of the statements\<close>

text \<open>The conditions of the rules of \<open>normalizeValue\<close>, each on the trimmed text.\<close>

definition rule_empty :: "jsstring \<Rightarrow> bool" where
  "rule_empty t = (t = [])"

definition rule_boolean :: "jsstring \<Rightarrow> bool" where
  "rule_boolean t = (toLowerCase t = js ''true'' \<or> toLowerCase t = js ''false'')"

definition rule_number :: "jsstring \<Rightarrow> bool" where
  "rule_number t = (\<not> isNaN (Number t))"

definition rule_structured :: "jsstring \<Rightarrow> bool" where
  "rule_structured t =
     (((startsWith t (js ''{'') \<and> endsWith t (js ''}''))
        \<or> (startsWith t (js ''['') \<and> endsWith t (js '']'')))
      \<and> JSON_parse t \<noteq> None)"

text \<open>
  Lines 104 to 113: the value stored for a matched pair, from its captured text, when the
  recursive call is \<open>nested\<close>.
\<close>

definition stored_value :: "(jsstring \<Rightarrow> error + jsval) \<Rightarrow> jsstring \<Rightarrow> jsval" where
  "stored_value nested v =
     (if hasNestedTags v
      then (case nested v of
              Inr tree \<Rightarrow> tree
            | Inl e \<Rightarrow> normalizeValue v)
      else normalizeValue v)"

text \<open>A missing-field failure, by the key its message names.\<close>

definition missing_field :: "jsstring \<Rightarrow> error" where
  "missing_field k = XmlParseError (Msg (js ''Missing '' @ k @ js '' in tool request''))"

text \<open>The keys lines 59 to 67 check, in the order of the checks.\<close>

definition required_keys :: "jsstring list" where
  "required_keys = [js ''server_name'', js ''tool_name'', js ''arguments'']"

text \<open>Lines 88 and 89: the request when \<open>validateToolRequest\<close> accepts it, its error otherwise.\<close>

definition validated :: "request \<Rightarrow> error + request" where
  "validated request =
     (case validateToolRequest request of
        Inl e \<Rightarrow> Inl e
      | Inr u \<Rightarrow> Inr request)"

text \<open>
  Of the outcomes of \<open>build\<close> on the blocks of a text, in order: the requests built, and
  the messages of the blocks that failed with an \<open>XmlParseError\<close>. An outcome is unexpected
  when it is an error of another kind.
\<close>

fun built :: "(error + request) list \<Rightarrow> request list" where
  "built [] = []"
| "built (Inr request # outcomes) = request # built outcomes"
| "built (Inl e # outcomes) = built outcomes"

fun skipped :: "(error + request) list \<Rightarrow> message list" where
  "skipped [] = []"
| "skipped (Inl (XmlParseError m) # outcomes) = m # skipped outcomes"
| "skipped (Inl e # outcomes) = skipped outcomes"
| "skipped (Inr request # outcomes) = skipped outcomes"

fun unexpected :: "error + request \<Rightarrow> bool" where
  "unexpected (Inl (XmlParseError m)) = False"
| "unexpected (Inl e) = True"
| "unexpected (Inr request) = False"

text \<open>
  The numeric texts of the specification, in its words: the entire text is a decimal
  literal with an optional sign and an optional exponent, and its value is finite.
\<close>

definition decimal_literal :: "jsstring \<Rightarrow> bool" where
  "decimal_literal t =
     (case t of
        [] \<Rightarrow> False
      | c # r \<Rightarrow> if c = 43 \<or> c = 45 then unsigned_decimal r \<noteq> None
                 else unsigned_decimal t \<noteq> None)"

fun finite_number :: "jsnum \<Rightarrow> bool" where
  "finite_number (Fin q) = True"
| "finite_number NegZero = True"
| "finite_number n = False"

text \<open>The other texts \<^verbatim>\<open>Number\<close> converts: an infinity, or an integer in base 16, 8 or 2.\<close>

definition infinity_literal :: "jsstring \<Rightarrow> bool" where
  "infinity_literal t = (t = js ''Infinity'' \<or> t = js ''+Infinity'' \<or> t = js ''-Infinity'')"

definition non_decimal_literal :: "jsstring \<Rightarrow> bool" where
  "non_decimal_literal t = (non_decimal t \<noteq> None)"

text \<open>The own properties of an object, as a list.\<close>

fun properties :: "jsval \<Rightarrow> (jsstring \<times> jsval) list" where
  "properties (JObj proto props) = props"
| "properties v = []"

section \<open>Evaluation\<close>

text \<open>
  An integer below \<open>2 ^ 53\<close> is a binary64 value, so rounding leaves it as it is.
\<close>

lemma round_half_even_of_int: "round_half_even (of_int m) = m"
  by (simp add: round_half_even_def)

lemma pow2_nonpos: "k \<le> 0 \<Longrightarrow> pow2 k = 1 / 2 ^ nat (- k)"
  by (cases "k = 0") (simp_all add: pow2_def)

lemma round_binary64_of_int:
  assumes "0 < n" "n < 2 ^ 53"
  shows "round_binary64 neg (of_int n) = Fin (if neg then - of_int n else of_int n)"
proof -
  have "bitlen n \<le> 53" using assms by (simp add: bitlen_le_iff_power)
  moreover have "bitlen 1 = 1" using bitlen_twopow_add_eq[of 0 0] by simp
  ultimately have "binary_exponent (of_int n) \<le> 52"
    by (simp add: binary_exponent_def Let_def)
  then have k: "max (binary_exponent (of_int n)) (- 1022) - 52 \<le> 0" by simp
  define j where "j = nat (- (max (binary_exponent (of_int n)) (- 1022) - 52))"
  have ulp: "pow2 (max (binary_exponent (of_int n)) (- 1022) - 52) = 1 / 2 ^ j"
    unfolding j_def by (rule pow2_nonpos[OF k])
  have "(of_int n :: rat) / (1 / 2 ^ j) = of_int (n * 2 ^ j)" by simp
  then have r: "round_half_even (of_int n / (1 / 2 ^ j)) = n * 2 ^ j"
    by (simp only: round_half_even_of_int)
  have v: "(of_int (n * 2 ^ j) :: rat) * (1 / 2 ^ j) = of_int n" by simp
  have "(of_int n :: rat) < 2 ^ 53" using assms(2) by (metis of_int_less_numeral_power_cancel_iff)
  also have "\<dots> < 2 ^ 1024" by simp
  finally have small: "\<not> pow2 1024 \<le> (of_int n :: rat)" by (simp add: pow2_def)
  from assms(1) have nz: "(of_int n :: rat) \<noteq> 0" by simp
  show ?thesis
    unfolding round_binary64_def Let_def ulp r v using small nz by simp
qed

lemma round_binary64_numeral:
  "numeral k < (2 ^ 53 :: int) \<Longrightarrow>
     round_binary64 neg (numeral k) = Fin (if neg then - numeral k else numeral k)"
  using round_binary64_of_int[of "numeral k" neg] by simp

lemma round_binary64_one: "round_binary64 neg 1 = Fin (if neg then - 1 else 1)"
  using round_binary64_of_int[of 1 neg] by simp

lemma round_binary64_zero: "round_binary64 neg 0 = (if neg then NegZero else Fin 0)"
  by (simp add: round_binary64_def)

lemmas string_eval = js_def trim_def is_js_space_def toLowerCase_def lower_unit_def
  startsWith_def endsWith_def suffix_to_prefix

lemmas number_eval = Number_def non_decimal_def str_decimal_def unsigned_decimal_def
  exponent_part_def signed_integer_def digits_value_def digit_value_def is_digit_def
  is_hex_digit_def isNaN_def pow10_def Let_def
  round_binary64_numeral round_binary64_one round_binary64_zero

lemmas json_fuel_numeral =
  json_value.simps(2) [of "pred_numeral k" for k, folded numeral_eq_Suc]
  json_elements.simps(2) [of "pred_numeral k" for k, folded numeral_eq_Suc]
  json_members.simps(2) [of "pred_numeral k" for k, folded numeral_eq_Suc]

lemmas json_eval = JSON_parse_def json_ws_def json_number_def json_int_def json_frac_def
  json_exp_def json_escape_def json_fuel_numeral

lemmas regex_eval = block_here_def tag_here_def open_marker_def close_marker_def
  hasNestedTags_def

lemma to_string_primitive: "\<not> is_object v \<Longrightarrow> to_string v = Inr (primitive_to_string v)"
  by (simp add: to_string.simps[of v])

lemmas to_string_object = to_string.simps [of "JObj proto props" for proto props]

lemmas to_string_array = to_string.simps [of "JArr xs" for xs]

lemmas parseParameters_numeral =
  parseParameters.simps(2) [of "pred_numeral k" for k, folded numeral_eq_Suc]

lemmas parser_eval = parseParameters_numeral parseParameters_loop.simps obj_get_def
  requestOfParams_def parseToolRequest_def validateToolRequest_def isValidToolName_def
  regex_test_def to_string_primitive server_name_pattern_def tool_name_pattern_def is_lower_def
  normalizeValue_def

section \<open>The counter of JSON.parse\<close>

text \<open>
  Every parser of the JSON grammar leaves less text than it is given, so the nesting of
  the calls is bounded by the length of the text.
\<close>

lemma json_ws_length: "length (json_ws s) \<le> length s"
  by (simp add: json_ws_def length_dropWhile_le)

lemma json_ws_Cons_length: "json_ws s = c # r \<Longrightarrow> length r < length s"
  using json_ws_length[of s] by simp

lemma json_chars_length: "json_chars s = Some (str, r) \<Longrightarrow> length r < length s"
proof (induction "length s" arbitrary: s str r rule: less_induct)
  case less
  from less.prems obtain c cs where s: "s = c # cs" by (cases s) auto
  show ?case
  proof (cases "c = 34")
    case True
    with less.prems s show ?thesis by simp
  next
    case q: False
    show ?thesis
    proof (cases "c = 92")
      case False
      with q less.prems s obtain str' where "json_chars cs = Some (str', r)"
        by (auto split: if_splits option.splits)
      from less.hyps[OF _ this] s show ?thesis by simp
    next
      case True
      with q less.prems s obtain e cs1 where cs: "cs = e # cs1"
        by (cases cs) (auto split: if_splits)
      show ?thesis
      proof (cases "e = 117")
        case u: True
        with True q less.prems s cs obtain str' where j: "json_chars (drop 4 cs1) = Some (str', r)"
          by (auto split: if_splits option.splits)
        have "length (drop 4 cs1) < length s" using s cs by simp
        from less.hyps[OF this j] s cs show ?thesis by simp
      next
        case False
        with True q less.prems s cs obtain str' where "json_chars cs1 = Some (str', r)"
          by (auto split: if_splits option.splits)
        from less.hyps[OF _ this] s cs show ?thesis by simp
      qed
    qed
  qed
qed

lemma json_int_length: "json_int s = Some (ip, r) \<Longrightarrow> length r < length s"
  using length_dropWhile_le[of is_digit "tl s"]
  by (cases s) (auto simp: json_int_def split: if_splits)

lemma json_frac_length: "json_frac s = Some (fp, r) \<Longrightarrow> length r \<le> length s"
  using length_dropWhile_le[of is_digit "tl s"]
  by (cases s) (auto simp: json_frac_def split: if_splits)

lemma json_exp_length: "json_exp s = Some (e, r) \<Longrightarrow> length r \<le> length s"
proof (cases s)
  case Nil
  then show "json_exp s = Some (e, r) \<Longrightarrow> length r \<le> length s" by (simp add: json_exp_def)
next
  case (Cons c cs)
  assume a: "json_exp s = Some (e, r)"
  show "length r \<le> length s"
  proof (cases "c \<noteq> 101 \<and> c \<noteq> 69")
    case True
    with a Cons show ?thesis by (simp add: json_exp_def)
  next
    case False
    define ds where "ds = (if cs \<noteq> [] \<and> (hd cs = 43 \<or> hd cs = 45) then tl cs else cs)"
    from a Cons False have "r = dropWhile is_digit ds"
      by (auto simp: json_exp_def Let_def ds_def split: if_splits)
    moreover have "length ds \<le> length cs" by (simp add: ds_def)
    ultimately show ?thesis
      using length_dropWhile_le[of is_digit ds] Cons by simp
  qed
qed

lemma json_number_length: "json_number s = Some (x, r) \<Longrightarrow> length r < length s"
proof -
  assume a: "json_number s = Some (x, r)"
  define s1 where "s1 = (if s \<noteq> [] \<and> hd s = 45 then tl s else s)"
  from a obtain ip r1 fp r2 e where
    i: "json_int s1 = Some (ip, r1)" and f: "json_frac r1 = Some (fp, r2)"
    and x: "json_exp r2 = Some (e, r)"
    by (auto simp: json_number_def Let_def s1_def split: option.splits)
  have "length s1 \<le> length s" by (simp add: s1_def)
  with json_int_length[OF i] json_frac_length[OF f] json_exp_length[OF x]
  show ?thesis by simp
qed

lemma json_shrink:
  "(\<forall>s v r. json_value n s = Parsed v r \<longrightarrow> length r < length s)
   \<and> (\<forall>acc s v r. json_elements n acc s = Parsed v r \<longrightarrow> length r < length s)
   \<and> (\<forall>acc s v r. json_members n acc s = Parsed v r \<longrightarrow> length r < length s)"
proof (induction n)
  case 0
  then show ?case by simp
next
  case (Suc n)
  have v: "length r < length s" if "json_value (Suc n) s = Parsed v r" for s v r
    using that Suc
    by (auto split: list.splits if_splits option.splits
        dest!: json_ws_Cons_length json_chars_length json_number_length)
       (fastforce dest!: json_ws_Cons_length)+
  from Suc have ihe: "json_elements n acc s = Parsed v r \<Longrightarrow> length r \<le> length s"
    and ihm: "json_members n acc' s = Parsed v r \<Longrightarrow> length r \<le> length s" for acc acc' s v r
    by (meson less_imp_le)+
  have e: "length r < length s" if "json_elements (Suc n) acc s = Parsed v r" for acc s v r
  proof -
    from that obtain v1 r1 c r2 where
      a: "json_value n s = Parsed v1 r1" and w: "json_ws r1 = c # r2"
      and k: "(c = 44 \<and> json_elements n (acc @ [v1]) r2 = Parsed v r) \<or> r = r2"
      by (auto split: parse.splits list.splits if_splits)
    from Suc a have "length r1 < length s" by blast
    moreover from w have "length r2 < length r1" by (rule json_ws_Cons_length)
    moreover from k have "length r \<le> length r2" by (auto dest: ihe)
    ultimately show ?thesis by simp
  qed
  have m: "length r < length s" if "json_members (Suc n) acc s = Parsed v r" for acc s v r
  proof -
    from that obtain q r0 k r1 c r2 v1 r3 d r4 where
      w0: "json_ws s = q # r0" and ch: "json_chars r0 = Some (k, r1)"
      and w1: "json_ws r1 = c # r2" and a: "json_value n r2 = Parsed v1 r3"
      and w3: "json_ws r3 = d # r4"
      and z: "(d = 44 \<and> json_members n (AList.update k v1 acc) r4 = Parsed v r) \<or> r = r4"
      by (auto split: parse.splits list.splits if_splits option.splits)
    from w0 have "length r0 < length s" by (rule json_ws_Cons_length)
    moreover from ch have "length r1 < length r0" by (rule json_chars_length)
    moreover from w1 have "length r2 < length r1" by (rule json_ws_Cons_length)
    moreover from Suc a have "length r3 < length r2" by blast
    moreover from w3 have "length r4 < length r3" by (rule json_ws_Cons_length)
    moreover from z have "length r \<le> length r4" by (auto dest: ihm)
    ultimately show ?thesis by simp
  qed
  from v e m show ?case by blast
qed

lemma json_value_length: "json_value n s = Parsed v r \<Longrightarrow> length r < length s"
  using json_shrink[of n] by blast

lemma json_fuel:
  "(\<forall>s. 2 * length s < n \<longrightarrow> json_value n s \<noteq> OutOfFuel)
   \<and> (\<forall>acc s. 2 * length s + 1 < n \<longrightarrow> json_elements n acc s \<noteq> OutOfFuel)
   \<and> (\<forall>acc s. 2 * length s < n \<longrightarrow> json_members n acc s \<noteq> OutOfFuel)"
proof (induction n)
  case 0
  then show ?case by simp
next
  case (Suc n)
  have v: "json_value (Suc n) s \<noteq> OutOfFuel" if b: "2 * length s < Suc n" for s
  proof (cases "json_ws s")
    case Nil
    then show ?thesis by simp
  next
    case (Cons c r)
    then have lr: "length r < length s" by (rule json_ws_Cons_length)
    have sub: "json_ws r = c1 # r1 \<Longrightarrow>
        json_members n [] (c1 # r1) \<noteq> OutOfFuel \<and> json_elements n [] (c1 # r1) \<noteq> OutOfFuel"
      for c1 r1
    proof -
      assume "json_ws r = c1 # r1"
      then have "length (c1 # r1) \<le> length r" using json_ws_length[of r] by simp
      with lr b have "2 * length (c1 # r1) + 1 < n" by simp
      with Suc show ?thesis by (metis add_lessD1)
    qed
    from Cons sub show ?thesis
      by (auto split: list.splits option.splits)
  qed
  have e: "json_elements (Suc n) acc s \<noteq> OutOfFuel" if b: "2 * length s + 1 < Suc n" for acc s
  proof (cases "json_value n s")
    case (Parsed v1 r1)
    then have l1: "length r1 < length s" by (rule json_value_length)
    have "json_elements n (acc @ [v1]) r2 \<noteq> OutOfFuel" if "json_ws r1 = c # r2" for c r2
    proof -
      from that have "length r2 < length r1" by (rule json_ws_Cons_length)
      with l1 b have "2 * length r2 + 1 < n" by simp
      with Suc show ?thesis by blast
    qed
    with Parsed show ?thesis by (auto split: list.splits)
  next
    case SyntaxError
    then show ?thesis by simp
  next
    case OutOfFuel
    moreover from b have "2 * length s < n" by simp
    ultimately show ?thesis using Suc by blast
  qed
  have m: "json_members (Suc n) acc s \<noteq> OutOfFuel" if b: "2 * length s < Suc n" for acc s
  proof
    assume "json_members (Suc n) acc s = OutOfFuel"
    then obtain q r0 k r1 c r2 where
      w0: "json_ws s = q # r0" and ch: "json_chars r0 = Some (k, r1)"
      and w1: "json_ws r1 = c # r2"
      and z: "json_value n r2 = OutOfFuel
          \<or> (\<exists>v1 r3 d r4. json_value n r2 = Parsed v1 r3 \<and> json_ws r3 = d # r4
               \<and> json_members n (AList.update k v1 acc) r4 = OutOfFuel)"
      by (auto split: list.splits option.splits parse.splits if_splits)
    have l2: "length r2 < length s"
      using json_ws_Cons_length[OF w0] json_chars_length[OF ch] json_ws_Cons_length[OF w1]
      by simp
    from z show False
    proof
      assume "json_value n r2 = OutOfFuel"
      moreover from l2 b have "2 * length r2 < n" by simp
      ultimately show False using Suc by blast
    next
      assume "\<exists>v1 r3 d r4. json_value n r2 = Parsed v1 r3 \<and> json_ws r3 = d # r4
               \<and> json_members n (AList.update k v1 acc) r4 = OutOfFuel"
      then obtain v1 r3 d r4 where a: "json_value n r2 = Parsed v1 r3"
        and w3: "json_ws r3 = d # r4"
        and o: "json_members n (AList.update k v1 acc) r4 = OutOfFuel" by blast
      have "length r4 < length r2"
        using json_value_length[OF a] json_ws_Cons_length[OF w3] by simp
      with l2 b have "2 * length r4 < n" by simp
      with o Suc show False by blast
    qed
  qed
  from v e m show ?case by blast
qed

text \<open>
  The counter of \<open>JSON_parse\<close> is enough: its result is \<open>None\<close> only for a text that is
  not a JSON text.
\<close>

lemma JSON_parse_fuel: "json_value (Suc (2 * length s)) s \<noteq> OutOfFuel"
  using json_fuel[of "Suc (2 * length s)"] by simp

section \<open>Properties of the parser\<close>

lemma missing_field_literals:
  "missing_field (js ''server_name'') = XmlParseError (Msg (js ''Missing server_name in tool request''))"
  "missing_field (js ''tool_name'') = XmlParseError (Msg (js ''Missing tool_name in tool request''))"
  "missing_field (js ''arguments'') = XmlParseError (Msg (js ''Missing arguments in tool request''))"
  by (simp_all add: missing_field_def js_def)

lemma required_keys_distinct:
  "js ''server_name'' \<noteq> js ''tool_name''"
  "js ''server_name'' \<noteq> js ''arguments''"
  "js ''tool_name'' \<noteq> js ''arguments''"
  by (simp_all add: js_def)

lemma missing_field_inject: "missing_field k = missing_field k' \<longleftrightarrow> k = k'"
  by (simp add: missing_field_def)

lemma parseToolRequest_block:
  "regex_exec block_here text = Some (content, rest) \<Longrightarrow>
     parseParameters depth content = Inr params \<Longrightarrow>
     parseToolRequest depth text = requestOfParams text params"
  by (simp add: parseToolRequest_def)

lemma requestOfParams_missing:
  "(\<not> truthy (obj_get params (js ''server_name'')) \<longrightarrow>
      requestOfParams text params = Inl (missing_field (js ''server_name'')))
   \<and> (truthy (obj_get params (js ''server_name''))
        \<and> \<not> truthy (obj_get params (js ''tool_name'')) \<longrightarrow>
      requestOfParams text params = Inl (missing_field (js ''tool_name'')))
   \<and> (truthy (obj_get params (js ''server_name''))
        \<and> truthy (obj_get params (js ''tool_name''))
        \<and> \<not> truthy (obj_get params (js ''arguments'')) \<longrightarrow>
      requestOfParams text params = Inl (missing_field (js ''arguments'')))"
  by (simp add: requestOfParams_def missing_field_literals)

lemma obj_get_absent: "lookup params k = None \<Longrightarrow> \<not> truthy (obj_get params k)"
  by (simp add: obj_get_def)

section \<open>The cascade of normalizeValue\<close>

lemma true_not_false: "js ''true'' \<noteq> js ''false''"
  by (simp add: js_def)

text \<open>
  C5. \<open>normalizeValue\<close> applies its five rules in the order empty, boolean, number,
  structured, text, and the first rule that matches the trimmed text gives the result: a
  rule applies only when no rule before it matches. So \<^verbatim>\<open>" 42 "\<close> is the number 42,
  \<^verbatim>\<open>"TRUE"\<close> the boolean true, \<^verbatim>\<open>{"a":1}\<close> the object with \<open>a\<close> bound to 1, \<^verbatim>\<open>[1,2,3]\<close>
  the array of 1, 2 and 3, and \<^verbatim>\<open>"hello"\<close> the text \<^verbatim>\<open>hello\<close>.
\<close>

theorem normalizeValue_cascade:
  "(rule_empty (trim v) \<longrightarrow> normalizeValue v = JStr [])
   \<and> (\<not> rule_empty (trim v) \<and> rule_boolean (trim v) \<longrightarrow>
        normalizeValue v = JBool (toLowerCase (trim v) = js ''true''))
   \<and> (\<not> rule_empty (trim v) \<and> \<not> rule_boolean (trim v) \<and> rule_number (trim v) \<longrightarrow>
        normalizeValue v = JNum (Number (trim v)))
   \<and> (\<not> rule_empty (trim v) \<and> \<not> rule_boolean (trim v) \<and> \<not> rule_number (trim v)
        \<and> rule_structured (trim v) \<longrightarrow>
        Some (normalizeValue v) = JSON_parse (trim v))
   \<and> (\<not> rule_empty (trim v) \<and> \<not> rule_boolean (trim v) \<and> \<not> rule_number (trim v)
        \<and> \<not> rule_structured (trim v) \<longrightarrow>
        normalizeValue v = JStr (trim v))
   \<and> normalizeValue (js '' 42 '') = JNum (Fin 42)
   \<and> normalizeValue (js ''TRUE'') = JBool True
   \<and> normalizeValue (js ''{\"a\":1}'') = JObj None [(js ''a'', JNum (Fin 1))]
   \<and> normalizeValue (js ''[1,2,3]'') = JArr [JNum (Fin 1), JNum (Fin 2), JNum (Fin 3)]
   \<and> normalizeValue (js ''hello'') = JStr (js ''hello'')"
proof -
  have general:
    "(rule_empty (trim v) \<longrightarrow> normalizeValue v = JStr [])
     \<and> (\<not> rule_empty (trim v) \<and> rule_boolean (trim v) \<longrightarrow>
          normalizeValue v = JBool (toLowerCase (trim v) = js ''true''))
     \<and> (\<not> rule_empty (trim v) \<and> \<not> rule_boolean (trim v) \<and> rule_number (trim v) \<longrightarrow>
          normalizeValue v = JNum (Number (trim v)))
     \<and> (\<not> rule_empty (trim v) \<and> \<not> rule_boolean (trim v) \<and> \<not> rule_number (trim v)
          \<and> rule_structured (trim v) \<longrightarrow>
          Some (normalizeValue v) = JSON_parse (trim v))
     \<and> (\<not> rule_empty (trim v) \<and> \<not> rule_boolean (trim v) \<and> \<not> rule_number (trim v)
          \<and> \<not> rule_structured (trim v) \<longrightarrow>
          normalizeValue v = JStr (trim v))"
    using true_not_false
    by (auto simp: normalizeValue_def Let_def rule_empty_def rule_boolean_def rule_number_def
        rule_structured_def split: option.splits)
  have e1: "normalizeValue (js '' 42 '') = JNum (Fin 42)"
    by (simp add: normalizeValue_def string_eval number_eval)
  have e2: "normalizeValue (js ''TRUE'') = JBool True"
    by (simp add: normalizeValue_def string_eval number_eval)
  have e3: "normalizeValue (js ''{\"a\":1}'') = JObj None [(js ''a'', JNum (Fin 1))]"
    by (simp add: normalizeValue_def string_eval number_eval json_eval)
  have e4: "normalizeValue (js ''[1,2,3]'') = JArr [JNum (Fin 1), JNum (Fin 2), JNum (Fin 3)]"
    by (simp add: normalizeValue_def string_eval number_eval json_eval)
  have e5: "normalizeValue (js ''hello'') = JStr (js ''hello'')"
    by (simp add: normalizeValue_def string_eval number_eval)
  from general e1 e2 e3 e4 e5 show ?thesis by blast
qed

text \<open>
  The word \<^verbatim>\<open>true\<close> matches the boolean rule and would match the text rule; the boolean
  rule, being earlier, wins.
\<close>

theorem normalizeValue_cascade_witness:
  "\<not> rule_empty (trim (js ''true'')) \<and> rule_boolean (trim (js ''true''))
   \<and> normalizeValue (js ''true'') = JBool True
   \<and> normalizeValue (js ''true'') \<noteq> JStr (trim (js ''true''))"
proof -
  have t: "trim (js ''true'') = js ''true''" by (simp add: string_eval)
  have a: "\<not> rule_empty (trim (js ''true''))" by (simp add: t rule_empty_def) (simp add: js_def)
  have b: "rule_boolean (trim (js ''true''))"
    unfolding t by (simp add: rule_boolean_def toLowerCase_def lower_unit_def js_def)
  have c: "toLowerCase (trim (js ''true'')) = js ''true''"
    unfolding t by (simp add: toLowerCase_def lower_unit_def js_def)
  from normalizeValue_cascade[of "js ''true''"] a b c
  have "normalizeValue (js ''true'') = JBool True" by simp
  with a b show ?thesis by simp
qed

section \<open>The checks of validateToolRequest\<close>

lemma message_literals_distinct:
  "js ''Missing tool name'' \<noteq> js ''Missing server_name in tool request''"
  "js ''Missing tool name'' \<noteq> js ''Invalid or missing arguments in tool request''"
  "js ''Missing server_name in tool request'' \<noteq> js ''Invalid or missing arguments in tool request''"
  "js ''Invalid server name format: '' \<noteq> js ''Invalid tool name format: ''"
  by (simp_all add: js_def)

text \<open>
  C4. \<open>validateToolRequest\<close> makes its five checks in the order tool name not empty, server
  name not empty, arguments an object, server name format, tool name format; the first
  check that fails decides the error, and the five errors differ. The two format checks
  test the pattern on ToString of the name: when the name is a string, that is the name
  itself; when it is an object for which ToString throws, the check throws that error
  and neither passes nor fails. A server name \<^verbatim>\<open>Server1\<close> is refused for its format, and
  arguments bound to a string are refused as not being an object (in each case when the
  checks before pass).
\<close>

theorem validateToolRequest_checks:
  "(\<not> truthy (toolName r) \<longrightarrow>
      validateToolRequest r = Inl (XmlParseError (Msg (js ''Missing tool name''))))
   \<and> (truthy (toolName r) \<and> \<not> truthy (serverName r) \<longrightarrow>
      validateToolRequest r = Inl (XmlParseError (Msg (js ''Missing server_name in tool request''))))
   \<and> (truthy (toolName r) \<and> truthy (serverName r)
        \<and> \<not> (truthy (arguments r) \<and> typeof_object (arguments r)) \<longrightarrow>
      validateToolRequest r =
        Inl (XmlParseError (Msg (js ''Invalid or missing arguments in tool request''))))
   \<and> (truthy (toolName r) \<and> truthy (serverName r)
        \<and> truthy (arguments r) \<and> typeof_object (arguments r)
        \<and> to_string (serverName r) = Inl e \<longrightarrow>
      validateToolRequest r = Inl e)
   \<and> (truthy (toolName r) \<and> truthy (serverName r)
        \<and> truthy (arguments r) \<and> typeof_object (arguments r)
        \<and> to_string (serverName r) = Inr sn \<and> \<not> server_name_pattern sn \<longrightarrow>
      validateToolRequest r =
        Inl (XmlParseError (MsgValue (js ''Invalid server name format: '') (serverName r))))
   \<and> (truthy (toolName r) \<and> truthy (serverName r)
        \<and> truthy (arguments r) \<and> typeof_object (arguments r)
        \<and> to_string (serverName r) = Inr sn \<and> server_name_pattern sn
        \<and> to_string (toolName r) = Inl e \<longrightarrow>
      validateToolRequest r = Inl e)
   \<and> (truthy (toolName r) \<and> truthy (serverName r)
        \<and> truthy (arguments r) \<and> typeof_object (arguments r)
        \<and> to_string (serverName r) = Inr sn \<and> server_name_pattern sn
        \<and> to_string (toolName r) = Inr tn \<and> \<not> tool_name_pattern tn \<longrightarrow>
      validateToolRequest r =
        Inl (XmlParseError (MsgValue (js ''Invalid tool name format: '') (toolName r))))
   \<and> (truthy (toolName r) \<and> truthy (serverName r)
        \<and> truthy (arguments r) \<and> typeof_object (arguments r)
        \<and> to_string (serverName r) = Inr sn \<and> server_name_pattern sn
        \<and> to_string (toolName r) = Inr tn \<and> tool_name_pattern tn \<longrightarrow>
      validateToolRequest r = Inr ())
   \<and> to_string (JStr name) = Inr name
   \<and> distinct [Msg (js ''Missing tool name''),
                 Msg (js ''Missing server_name in tool request''),
                 Msg (js ''Invalid or missing arguments in tool request''),
                 MsgValue (js ''Invalid server name format: '') (serverName r),
                 MsgValue (js ''Invalid tool name format: '') (toolName r)]
   \<and> (truthy (toolName r) \<and> truthy (arguments r) \<and> typeof_object (arguments r) \<longrightarrow>
      validateToolRequest (r\<lparr>serverName := JStr (js ''Server1'')\<rparr>) =
        Inl (XmlParseError (MsgValue (js ''Invalid server name format: '') (JStr (js ''Server1'')))))
   \<and> (truthy (toolName r) \<and> truthy (serverName r) \<longrightarrow>
      validateToolRequest (r\<lparr>arguments := JStr s\<rparr>) =
        Inl (XmlParseError (Msg (js ''Invalid or missing arguments in tool request''))))"
proof -
  have server1: "\<not> server_name_pattern (js ''Server1'')"
    by (simp add: server_name_pattern_def is_lower_def js_def)
  have truthy1: "truthy (JStr (js ''Server1''))"
    by (simp add: js_def)
  show ?thesis
    using message_literals_distinct server1 truthy1
    by (simp add: validateToolRequest_def isValidToolName_def regex_test_def to_string_primitive)
qed

text \<open>
  A request with a well-formed tool name: the two refusals and an acceptance. With a
  server name that is an object holding a property \<^verbatim>\<open>toString\<close>, as the nested tag
  \<^verbatim>\<open><toString>x</toString>\<close> gives, the fourth check throws a TypeError.
\<close>

theorem validateToolRequest_checks_witness:
  "validateToolRequest
     \<lparr>toolName = JStr (js ''read_file''), serverName = JStr (js ''Server1''),
      arguments = JObj None [], raw = []\<rparr>
     = Inl (XmlParseError (MsgValue (js ''Invalid server name format: '') (JStr (js ''Server1''))))
   \<and> validateToolRequest
     \<lparr>toolName = JStr (js ''read_file''), serverName = JStr (js ''file-server''),
      arguments = JStr (js ''{}''), raw = []\<rparr>
     = Inl (XmlParseError (Msg (js ''Invalid or missing arguments in tool request'')))
   \<and> validateToolRequest
     \<lparr>toolName = JStr (js ''read_file''), serverName = JStr (js ''file-server''),
      arguments = JObj None [], raw = []\<rparr>
     = Inr ()
   \<and> to_string (JObj None [(js ''toString'', JStr (js ''x''))]) = Inl TypeError
   \<and> validateToolRequest
     \<lparr>toolName = JStr (js ''read_file''),
      serverName = JObj None [(js ''toString'', JStr (js ''x''))],
      arguments = JObj None [], raw = []\<rparr>
     = Inl TypeError"
proof -
  let ?r = "\<lparr>toolName = JStr (js ''read_file''), serverName = JStr (js ''file-server''),
      arguments = JObj None [], raw = []\<rparr>"
  let ?o = "JObj None [(js ''toString'', JStr (js ''x''))]"
  let ?q = "\<lparr>toolName = JStr (js ''read_file''), serverName = ?o,
      arguments = JObj None [], raw = []\<rparr>"
  have tn: "truthy (toolName ?r)" and sn: "truthy (serverName ?r)"
    and ar: "truthy (arguments ?r)" "typeof_object (arguments ?r)"
    by (simp_all add: js_def)
  have ss: "to_string (serverName ?r) = Inr (js ''file-server'')"
    and st: "to_string (toolName ?r) = Inr (js ''read_file'')"
    by (simp_all add: to_string_primitive)
  have ps: "server_name_pattern (js ''file-server'')"
    by (simp add: server_name_pattern_def is_lower_def is_digit_def js_def)
  have pt: "tool_name_pattern (js ''read_file'')"
    by (simp add: tool_name_pattern_def is_lower_def is_digit_def js_def)
  from validateToolRequest_checks[of ?r undefined "js ''file-server''" "js ''read_file''"
      undefined "js ''{}''"] tn sn ar ss st ps pt
  have a: "validateToolRequest (?r\<lparr>serverName := JStr (js ''Server1'')\<rparr>)
        = Inl (XmlParseError (MsgValue (js ''Invalid server name format: '') (JStr (js ''Server1''))))"
    and b: "validateToolRequest (?r\<lparr>arguments := JStr (js ''{}'')\<rparr>)
        = Inl (XmlParseError (Msg (js ''Invalid or missing arguments in tool request'')))"
    and c: "validateToolRequest ?r = Inr ()"
    by simp_all
  have o: "to_string ?o = Inl TypeError"
    by (simp add: to_string.simps[of ?o])
  have "truthy (toolName ?q)" "truthy (serverName ?q)" "truthy (arguments ?q)"
    "typeof_object (arguments ?q)"
    by (simp_all add: js_def)
  with validateToolRequest_checks[of ?q TypeError] o
  have d: "validateToolRequest ?q = Inl TypeError" by simp
  from a b c o d show ?thesis by simp
qed

section \<open>Properties of the parameter loop\<close>

lemma parseParameters_loop_fold:
  "parseParameters_loop nested parameters content =
     Inr (foldl (\<lambda>ob (n, v). obj_set ob n (stored_value nested v)) parameters (tag_matches content))"
proof (induction nested parameters content rule: parseParameters_loop.induct)
  case (1 nested parameters content)
  show ?case
  proof (cases "regex_exec tag_here content")
    case None
    then show ?thesis
      by (simp add: parseParameters_loop.simps[of nested parameters content]
          tag_matches.simps[of content])
  next
    case (Some m)
    obtain n v rest where m: "m = ((n, v), rest)" by (metis surj_pair)
    have sv: "(if hasNestedTags v
               then case nested v of
                      Inl e \<Rightarrow> normalizeValue v
                    | Inr tree \<Rightarrow> tree
               else normalizeValue v) = stored_value nested v"
      by (simp add: stored_value_def)
    have "parseParameters_loop nested parameters content =
            parseParameters_loop nested (obj_set parameters n (stored_value nested v)) rest"
      using Some m
      by (simp add: parseParameters_loop.simps[of nested parameters content] sv)
    also have "\<dots> = Inr (foldl (\<lambda>ob (n, v). obj_set ob n (stored_value nested v))
                         (obj_set parameters n (stored_value nested v)) (tag_matches rest))"
      using "1.IH"[OF Some m[symmetric] refl] by (simp only: sv)
    also have "\<dots> = Inr (foldl (\<lambda>ob (n, v). obj_set ob n (stored_value nested v))
                         parameters (tag_matches content))"
      using Some m by (simp add: tag_matches.simps[of content])
    finally show ?thesis .
  qed
qed

lemma parseParameters_fold:
  "parseParameters (Suc depth) content =
     Inr (foldl (\<lambda>ob (n, v). obj_set ob n (stored_value (parseParameters depth) v))
            (JObj None []) (tag_matches content))"
  by (simp add: parseParameters_loop_fold)

lemma tag_matches_shorter: "(n, v) \<in> set (tag_matches content) \<Longrightarrow> length v < length content"
proof (induction content rule: tag_matches.induct)
  case (1 content)
  show ?case
  proof (cases "regex_exec tag_here content")
    case None
    with "1.prems" show ?thesis by (simp add: tag_matches.simps[of content])
  next
    case (Some m)
    obtain n' v' rest where m: "m = ((n', v'), rest)" by (metis surj_pair)
    from Some m have s: "length rest < length content" "length v' < length content"
      by (auto dest: regex_exec_tag_shorter)
    from "1.prems" Some m have "(n, v) = (n', v') \<or> (n, v) \<in> set (tag_matches rest)"
      by (simp add: tag_matches.simps[of content])
    then show ?thesis
    proof
      assume "(n, v) = (n', v')"
      with s show ?thesis by simp
    next
      assume "(n, v) \<in> set (tag_matches rest)"
      from "1.IH"[OF Some m[symmetric] this] s show ?thesis by simp
    qed
  qed
qed

text \<open>
  With room on the stack for more calls than the content has code units, the room does
  not decide the result of \<open>parseParameters\<close>: a call nested in another parses a shorter
  text.
\<close>

lemma parseParameters_depth:
  "length content < depth \<Longrightarrow>
     parseParameters depth content = parseParameters (Suc depth) content"
proof (induction depth arbitrary: content)
  case 0
  then show ?case by simp
next
  case (Suc depth)
  have "stored_value (parseParameters depth) v = stored_value (parseParameters (Suc depth)) v"
    if "(n, v) \<in> set (tag_matches content)" for n v
  proof -
    from that have "length v < length content" by (rule tag_matches_shorter)
    with Suc.prems have "length v < depth" by simp
    then have "parseParameters depth v = parseParameters (Suc depth) v" by (rule Suc.IH)
    then show ?thesis by (simp only: stored_value_def)
  qed
  then have "foldl (\<lambda>ob (n, v). obj_set ob n (stored_value (parseParameters depth) v)) acc ms
           = foldl (\<lambda>ob (n, v). obj_set ob n (stored_value (parseParameters (Suc depth)) v)) acc ms"
    if "set ms \<subseteq> set (tag_matches content)" for acc ms
    using that by (induction ms arbitrary: acc) auto
  then show ?case
    by (simp only: parseParameters_fold)
qed

lemma lookup_own: "own_property ob k = Some v \<Longrightarrow> lookup ob k = Some v"
  by (cases ob) simp_all

lemma own_property_obj_set_other:
  "k \<noteq> n \<Longrightarrow> own_property (obj_set ob k v) n = own_property ob n"
  by (cases ob) (simp_all add: AList.update_conv')

lemma own_property_obj_set_same:
  "k \<noteq> js ''__proto__'' \<Longrightarrow> own_property (obj_set (JObj proto props) k v) k = Some v"
  by (simp add: AList.update_conv')

lemma obj_set_object: "\<exists>proto' props'. obj_set (JObj proto props) k v = JObj proto' props'"
  by simp

lemma foldl_obj_set_object:
  "\<exists>proto' props'. foldl (\<lambda>ob (n, v). obj_set ob n (g v)) (JObj proto props) ms = JObj proto' props'"
proof (induction ms arbitrary: proto props)
  case Nil
  then show ?case by simp
next
  case (Cons m ms)
  obtain n v where m: "m = (n, v)" by (cases m)
  obtain proto' props' where "obj_set (JObj proto props) n (g v) = JObj proto' props'"
    using obj_set_object by blast
  with Cons.IH[of proto' props'] m show ?case by simp
qed

lemma own_property_foldl_obj_set:
  "n \<notin> fst ` set ms \<Longrightarrow>
     own_property (foldl (\<lambda>ob (k, v). obj_set ob k (g v)) acc ms) n = own_property acc n"
proof (induction ms arbitrary: acc)
  case Nil
  then show ?case by simp
next
  case (Cons m ms)
  obtain k v where m: "m = (k, v)" by (cases m)
  with Cons.prems have "k \<noteq> n" "n \<notin> fst ` set ms" by auto
  with Cons.IH[of "obj_set acc k (g v)"] m show ?case
    by (simp add: own_property_obj_set_other)
qed

lemma distinct_obj_set:
  "distinct (map fst (properties ob)) \<Longrightarrow> distinct (map fst (properties (obj_set ob k v)))"
  by (cases ob) (simp_all add: AList.distinct_update)

lemma distinct_foldl_obj_set:
  "distinct (map fst (properties acc)) \<Longrightarrow>
     distinct (map fst (properties (foldl (\<lambda>ob (n, v). obj_set ob n (g v)) acc ms)))"
proof (induction ms arbitrary: acc)
  case Nil
  then show ?case by simp
next
  case (Cons m ms)
  obtain n v where m: "m = (n, v)" by (cases m)
  from Cons.prems have "distinct (map fst (properties (obj_set acc n (g v))))"
    by (rule distinct_obj_set)
  then show ?case using Cons.IH by (simp add: m)
qed

text \<open>
  When the loop of \<open>parseParameters\<close> matches a tag name other than \<^verbatim>\<open>__proto__\<close> more than
  once in a content, the tree holds under that name the value stored for its last match
  in document order. The tree holds one property for each name, so what earlier matches
  of the name stored is not in it.
\<close>

lemma parseParameters_last_occurrence:
  assumes "parseParameters (Suc depth) content = Inr tree"
    and "tag_matches content = before @ (n, v) # after"
    and "n \<notin> fst ` set after"
    and "n \<noteq> js ''__proto__''"
  shows "own_property tree n = Some (stored_value (parseParameters depth) v)"
    and "obj_get tree n = stored_value (parseParameters depth) v"
    and "distinct (map fst (properties tree))"
    and "(n, w) \<in> set (properties tree) \<Longrightarrow> w = stored_value (parseParameters depth) v"
proof -
  let ?f = "\<lambda>ob (n, v). obj_set ob n (stored_value (parseParameters depth) v)"
  from assms(1) have tree: "tree = foldl ?f (JObj None []) (tag_matches content)"
    by (simp add: parseParameters_loop_fold)
  obtain proto props where b: "foldl ?f (JObj None []) before = JObj proto props"
    using foldl_obj_set_object[of "stored_value (parseParameters depth)" None "[]" before]
    by blast
  have "tree = foldl ?f (obj_set (JObj proto props) n (stored_value (parseParameters depth) v)) after"
    unfolding tree assms(2) by (simp add: b)
  then have "own_property tree n
      = own_property (obj_set (JObj proto props) n (stored_value (parseParameters depth) v)) n"
    using own_property_foldl_obj_set[OF assms(3)] by simp
  also have "\<dots> = Some (stored_value (parseParameters depth) v)"
    by (rule own_property_obj_set_same[OF assms(4)])
  finally show own: "own_property tree n = Some (stored_value (parseParameters depth) v)" .
  then show "obj_get tree n = stored_value (parseParameters depth) v"
    by (simp add: obj_get_def lookup_own)
  show d: "distinct (map fst (properties tree))"
    unfolding tree by (rule distinct_foldl_obj_set) simp
  show "w = stored_value (parseParameters depth) v" if "(n, w) \<in> set (properties tree)"
  proof (cases tree)
    case (JObj proto' props')
    with that d have "map_of props' n = Some w" by simp
    with own JObj show ?thesis by simp
  qed (use that in simp_all)
qed

section \<open>Failures of the recursive parse\<close>

lemma parseParameters_loop_total:
  "\<exists>tree. parseParameters_loop nested parameters content = Inr tree"
  by (simp add: parseParameters_loop_fold)

text \<open>
  C9. In the loop of \<open>parseParameters\<close>, when a matched pair has a nested pair in its
  content and the recursive parse of that content throws, whatever the error, the loop
  stores the normalized raw content under the name and goes on with the text after the
  pair; the loop returns a tree whatever the recursive parse does. The program runs this
  loop with itself as the recursive parse, which throws when the call stack has no room
  for it; so a call of \<open>parseParameters\<close> for which the stack has room returns a tree,
  and no failure of a recursive parse leaves it.
\<close>

theorem parseParameters_swallows_nested_failure:
  "(regex_exec tag_here content = Some ((paramName, paramValue), rest)
      \<and> hasNestedTags paramValue \<and> nested paramValue = Inl e \<longrightarrow>
      parseParameters_loop nested parameters content =
        parseParameters_loop nested
          (obj_set parameters paramName (normalizeValue paramValue)) rest)
   \<and> (\<exists>tree. parseParameters_loop nested parameters content = Inr tree)
   \<and> parseParameters (Suc depth) content =
        parseParameters_loop (parseParameters depth) (JObj None []) content
   \<and> parseParameters 0 paramValue = Inl RangeError
   \<and> (\<exists>tree. parseParameters (Suc depth) content = Inr tree)"
proof -
  have "regex_exec tag_here content = Some ((paramName, paramValue), rest)
      \<and> hasNestedTags paramValue \<and> nested paramValue = Inl e \<longrightarrow>
      parseParameters_loop nested parameters content =
        parseParameters_loop nested
          (obj_set parameters paramName (normalizeValue paramValue)) rest"
    by (simp add: parseParameters_loop.simps[of nested parameters content])
  moreover have "\<exists>tree. parseParameters_loop nested parameters content = Inr tree"
    by (rule parseParameters_loop_total)
  moreover have "\<exists>tree. parseParameters (Suc depth) content = Inr tree"
    by (simp add: parseParameters_loop_total)
  ultimately show ?thesis by simp
qed

text \<open>
  A pair \<open>a\<close> whose content is the pair \<open>b\<close>, parsed when the stack has room for the
  call but not for a call nested in it: the recursive parse throws, the raw content is
  stored as text, and the pair \<open>c\<close> after it is still parsed. With room for the nested
  call the content of \<open>a\<close> is stored as a tree.
\<close>

theorem parseParameters_swallows_nested_failure_witness:
  "regex_exec tag_here (js ''<a><b>1</b></a><c>2</c>'')
     = Some ((js ''a'', js ''<b>1</b>''), js ''<c>2</c>'')
   \<and> hasNestedTags (js ''<b>1</b>'')
   \<and> parseParameters 0 (js ''<b>1</b>'') = Inl RangeError
   \<and> parseParameters (Suc 0) (js ''<a><b>1</b></a><c>2</c>'')
       = Inr (JObj None [(js ''a'', JStr (js ''<b>1</b>'')), (js ''c'', JNum (Fin 2))])
   \<and> parseParameters (Suc (Suc 0)) (js ''<a><b>1</b></a><c>2</c>'')
       = Inr (JObj None [(js ''a'', JObj None [(js ''b'', JNum (Fin 1))]), (js ''c'', JNum (Fin 2))])"
proof -
  let ?c = "js ''<a><b>1</b></a><c>2</c>''"
  have m: "regex_exec tag_here ?c = Some ((js ''a'', js ''<b>1</b>''), js ''<c>2</c>'')"
    by (simp add: regex_eval string_eval)
  have h: "hasNestedTags (js ''<b>1</b>'')"
    by (simp add: regex_eval string_eval)
  have nv: "normalizeValue (js ''<b>1</b>'') = JStr (js ''<b>1</b>'')"
    by (simp add: normalizeValue_def string_eval number_eval)
  have rest: "parseParameters_loop (parseParameters 0)
       (JObj None [(js ''a'', JStr (js ''<b>1</b>''))]) (js ''<c>2</c>'')
     = Inr (JObj None [(js ''a'', JStr (js ''<b>1</b>'')), (js ''c'', JNum (Fin 2))])"
    by (simp add: parser_eval regex_eval string_eval number_eval)
  note t = parseParameters_swallows_nested_failure[of ?c "js ''a''" "js ''<b>1</b>''"
      "js ''<c>2</c>''" "parseParameters 0" RangeError "JObj None []" 0]
  have "parseParameters (Suc 0) ?c = parseParameters_loop (parseParameters 0) (JObj None []) ?c"
    by simp
  also have "\<dots> = parseParameters_loop (parseParameters 0)
       (obj_set (JObj None []) (js ''a'') (normalizeValue (js ''<b>1</b>''))) (js ''<c>2</c>'')"
    using t m h by simp
  also have "\<dots> = Inr (JObj None [(js ''a'', JStr (js ''<b>1</b>'')), (js ''c'', JNum (Fin 2))])"
    using rest unfolding nv by (simp add: js_def)
  finally have w: "parseParameters (Suc 0) ?c
       = Inr (JObj None [(js ''a'', JStr (js ''<b>1</b>'')), (js ''c'', JNum (Fin 2))])" .
  have p: "parseParameters (Suc (Suc 0)) ?c
       = Inr (JObj None [(js ''a'', JObj None [(js ''b'', JNum (Fin 1))]), (js ''c'', JNum (Fin 2))])"
    by (simp add: parser_eval regex_eval string_eval number_eval)
  from m h w p show ?thesis by simp
qed

section \<open>Repeated tag names\<close>

text \<open>
  C8, where the code departs from it. For a tag named \<^verbatim>\<open>__proto__\<close> the assignment of
  lines 106 to 112 does not create a property: it reaches the setter that every object
  inherits. Of two such tags with the contents 1 and 2, neither value is in the tree,
  which has no property at all. When the first holds an object and the second the
  number 2, the object of the first stays the prototype of the tree, and the value of
  the last occurrence is dropped.
\<close>

theorem parseParameters_proto_tag:
  "tag_matches (js ''<__proto__>1</__proto__><__proto__>2</__proto__>'')
     = [(js ''__proto__'', js ''1''), (js ''__proto__'', js ''2'')]
   \<and> stored_value (parseParameters depth) (js ''2'') = JNum (Fin 2)
   \<and> parseParameters (Suc depth) (js ''<__proto__>1</__proto__><__proto__>2</__proto__>'')
       = Inr (JObj None [])
   \<and> own_property (JObj None []) (js ''__proto__'') = None
   \<and> tag_matches (js ''<__proto__>{\"a\":1}</__proto__><__proto__>2</__proto__>'')
     = [(js ''__proto__'', js ''{\"a\":1}''), (js ''__proto__'', js ''2'')]
   \<and> parseParameters (Suc depth) (js ''<__proto__>{\"a\":1}</__proto__><__proto__>2</__proto__>'')
       = Inr (JObj (Some (JObj None [(js ''a'', JNum (Fin 1))])) [])
   \<and> obj_get (JObj (Some (JObj None [(js ''a'', JNum (Fin 1))])) []) (js ''a'') = JNum (Fin 1)"
proof -
  have a: "tag_matches (js ''<__proto__>1</__proto__><__proto__>2</__proto__>'')
     = [(js ''__proto__'', js ''1''), (js ''__proto__'', js ''2'')]"
    by (simp add: tag_matches.simps regex_eval string_eval)
  have b: "stored_value (parseParameters depth) (js ''2'') = JNum (Fin 2)"
    by (simp add: stored_value_def normalizeValue_def regex_eval string_eval number_eval)
  have c: "parseParameters (Suc depth) (js ''<__proto__>1</__proto__><__proto__>2</__proto__>'')
       = Inr (JObj None [])"
    by (simp add: parser_eval regex_eval string_eval number_eval)
  have d: "tag_matches (js ''<__proto__>{\"a\":1}</__proto__><__proto__>2</__proto__>'')
     = [(js ''__proto__'', js ''{\"a\":1}''), (js ''__proto__'', js ''2'')]"
    by (simp add: tag_matches.simps regex_eval string_eval)
  have e: "parseParameters (Suc depth) (js ''<__proto__>{\"a\":1}</__proto__><__proto__>2</__proto__>'')
       = Inr (JObj (Some (JObj None [(js ''a'', JNum (Fin 1))])) [])"
    by (simp add: parser_eval regex_eval string_eval number_eval json_eval)
  have f: "obj_get (JObj (Some (JObj None [(js ''a'', JNum (Fin 1))])) []) (js ''a'') = JNum (Fin 1)"
    by (simp add: obj_get_def)
  from a b c d e f show ?thesis by simp
qed

text \<open>
  With room on the stack for one call. Beside it, the name \<open>a\<close> with the values 1 and
  2 around a pair \<open>b\<close>: the tree binds \<open>a\<close> to 2, and the 1 of the first match is not
  in it.
\<close>

theorem parseParameters_proto_tag_witness:
  "parseParameters (Suc 0) (js ''<__proto__>1</__proto__><__proto__>2</__proto__>'')
       = Inr (JObj None [])
   \<and> parseParameters (Suc 0) (js ''<__proto__>{\"a\":1}</__proto__><__proto__>2</__proto__>'')
       = Inr (JObj (Some (JObj None [(js ''a'', JNum (Fin 1))])) [])
   \<and> parseParameters (Suc 0) (js ''<a>1</a><b>x</b><a>2</a>'')
       = Inr (JObj None [(js ''a'', JNum (Fin 2)), (js ''b'', JStr (js ''x''))])"
proof -
  have "parseParameters (Suc 0) (js ''<a>1</a><b>x</b><a>2</a>'')
       = Inr (JObj None [(js ''a'', JNum (Fin 2)), (js ''b'', JStr (js ''x''))])"
    by (simp add: parser_eval regex_eval string_eval number_eval)
  with parseParameters_proto_tag[of 0] show ?thesis by simp
qed

section \<open>The required keys of a block\<close>

lemma missing_field_not_other:
  "k \<in> set required_keys \<Longrightarrow> missing_field k \<noteq> XmlParseError (Msg (js ''Invalid JSON in tool arguments''))"
  "k \<in> set required_keys \<Longrightarrow> missing_field k \<noteq> XmlParseError (Msg (js ''Missing tool name''))"
  "k \<in> set required_keys \<Longrightarrow>
     missing_field k \<noteq> XmlParseError (Msg (js ''Invalid or missing arguments in tool request''))"
  by (auto simp: required_keys_def missing_field_def js_def)

lemma missing_field_not_thrown:
  "missing_field k \<noteq> XmlParseError (MsgValue p v)"
  "missing_field k \<noteq> TypeError"
  by (simp_all add: missing_field_def)

text \<open>ToString throws no error but the TypeError.\<close>

lemma to_string_TypeError: "to_string v = Inl e \<Longrightarrow> e = TypeError"
proof (induction v arbitrary: e rule: to_string.induct)
  case (1 v)
  show ?case
  proof (cases "is_object v")
    case False
    with "1.prems" show ?thesis by (simp add: to_string.simps[of v])
  next
    case obj: True
    show ?thesis
    proof (cases "lookup v (js ''toString'') \<noteq> None")
      case True
      with obj "1.prems" show ?thesis by (simp add: to_string.simps[of v])
    next
      case nts: False
      show ?thesis
      proof (cases "chain_array v")
        case None
        with obj nts "1.prems" show ?thesis by (simp add: to_string.simps[of v])
      next
        case (Some xs)
        show ?thesis
        proof (cases "lookup v (js ''join'') \<noteq> None")
          case True
          with obj nts Some "1.prems" show ?thesis by (simp add: to_string.simps[of v])
        next
          case nj: False
          let ?len = "case lookup v (js ''length'') of
                    None \<Rightarrow> Inr (length xs)
                  | Some l \<Rightarrow>
                      if is_object l
                      then (case to_string l of
                              Inl e \<Rightarrow> Inl e
                            | Inr s \<Rightarrow> Inr (to_length (Number s)))
                      else Inr (to_length (primitive_to_number l))"
          let ?el = "\<lambda>i. case lookup v (decimal i) of
                                     None \<Rightarrow> Inr []
                                   | Some x \<Rightarrow>
                                       if x = JNull \<or> x = JUndefined then Inr []
                                       else to_string x"
          have seq: "sequence rs = Inl e' \<Longrightarrow> Inl e' \<in> set rs" for rs :: "(error + jsstring) list" and e'
            by (induction rs) (auto split: sum.splits)
          from obj nts Some nj "1.prems"
          consider (len) "?len = Inl e"
            | (el) len where "?len = Inr len" "sequence (map ?el [0..<len]) = Inl e"
            by (simp add: to_string.simps[of v] split: sum.splits)
          then show ?thesis
          proof cases
            case len
            then obtain l where l: "lookup v (js ''length'') = Some l" "is_object l"
              "to_string l = Inl e"
              by (auto split: option.splits if_splits sum.splits)
            from "1.IH"(1)[OF _ _ Some _ l(1) l(2) l(3)] obj nts nj show ?thesis by simp
          next
            case el
            from seq[OF el(2)] obtain i where i: "i < len" "?el i = Inl e" by auto
            then obtain x where x: "lookup v (decimal i) = Some x"
              "\<not> (x = JNull \<or> x = JUndefined)" "to_string x = Inl e"
              by (auto split: option.splits if_splits)
            from i(1) have "i \<in> set [0..<len]" by simp
            from "1.IH"(2)[OF _ _ Some _ el(1) this x] obj nts nj show ?thesis by simp
          qed
        qed
      qed
    qed
  qed
qed

lemma validateToolRequest_not_missing:
  assumes "k \<in> set required_keys" "truthy (serverName r)"
  shows "validateToolRequest r \<noteq> Inl (missing_field k)"
proof -
  have "validateToolRequest r = Inl e \<Longrightarrow>
      e = XmlParseError (Msg (js ''Missing tool name''))
      \<or> e = XmlParseError (Msg (js ''Invalid or missing arguments in tool request''))
      \<or> (\<exists>p v. e = XmlParseError (MsgValue p v))
      \<or> (\<exists>v. to_string v = Inl e)" for e
    using assms(2)
    by (auto simp: validateToolRequest_def isValidToolName_def regex_test_def
        split: if_splits sum.splits)
  moreover have "to_string v \<noteq> Inl (missing_field k)" for v
    using to_string_TypeError missing_field_not_thrown(2) by blast
  ultimately show ?thesis
    using missing_field_not_other[OF assms(1)] missing_field_not_thrown(1) by blast
qed

lemma requestOfParams_not_missing:
  assumes "k \<in> set required_keys"
    and "truthy (obj_get params (js ''server_name''))"
    and "truthy (obj_get params (js ''tool_name''))"
    and "truthy (obj_get params (js ''arguments''))"
  shows "requestOfParams text params \<noteq> Inl (missing_field k)"
proof
  assume a: "requestOfParams text params = Inl (missing_field k)"
  from a assms(2-4) have
    "missing_field k = XmlParseError (Msg (js ''Invalid JSON in tool arguments''))
     \<or> (\<exists>r. serverName r = obj_get params (js ''server_name'')
              \<and> validateToolRequest r = Inl (missing_field k))"
    by (auto simp: requestOfParams_def Let_def split: jsval.splits option.splits sum.splits)
  with missing_field_not_other(1)[OF assms(1)] validateToolRequest_not_missing[OF assms(1)] assms(2)
  show False by metis
qed

text \<open>
  C2, as the code has it. \<open>parseToolRequest\<close> checks the keys \<open>server_name\<close>,
  \<open>tool_name\<close> and \<open>arguments\<close> of the parsed tree in that order. A check fails when the
  value read for its key is falsy, as it is when the key is found nowhere; the first
  check that fails gives the missing-field failure that names its key, whatever the later
  keys hold, and the three failures differ. When the three values are truthy, no
  missing-field failure is given.
\<close>

theorem parseToolRequest_required_keys:
  "regex_exec block_here text = Some (content, rest) \<and> parseParameters depth content = Inr params \<longrightarrow>
     (\<not> truthy (obj_get params (js ''server_name'')) \<longrightarrow>
        parseToolRequest depth text = Inl (missing_field (js ''server_name'')))
     \<and> (truthy (obj_get params (js ''server_name''))
          \<and> \<not> truthy (obj_get params (js ''tool_name'')) \<longrightarrow>
        parseToolRequest depth text = Inl (missing_field (js ''tool_name'')))
     \<and> (truthy (obj_get params (js ''server_name''))
          \<and> truthy (obj_get params (js ''tool_name''))
          \<and> \<not> truthy (obj_get params (js ''arguments'')) \<longrightarrow>
        parseToolRequest depth text = Inl (missing_field (js ''arguments'')))
     \<and> (truthy (obj_get params (js ''server_name''))
          \<and> truthy (obj_get params (js ''tool_name''))
          \<and> truthy (obj_get params (js ''arguments'')) \<longrightarrow>
        (\<forall>k \<in> set required_keys. parseToolRequest depth text \<noteq> Inl (missing_field k)))
     \<and> (\<forall>k \<in> set required_keys. lookup params k = None \<longrightarrow> \<not> truthy (obj_get params k))
     \<and> distinct [missing_field (js ''server_name''), missing_field (js ''tool_name''),
                   missing_field (js ''arguments'')]"
  using requestOfParams_missing[of params "text"] required_keys_distinct
    requestOfParams_not_missing[of _ params "text"]
  by (simp add: parseToolRequest_block obj_get_absent missing_field_inject)

text \<open>
  A block without \<open>tool_name\<close>, its \<open>server_name\<close> being a name: the failure names
  \<open>tool_name\<close>, the first key whose check fails. A block whose only tag is \<^verbatim>\<open>__proto__\<close>,
  holding an object with the three keys: the tree has no property, the three keys are
  read from its prototype, and the request is built.
\<close>

theorem parseToolRequest_required_keys_witness:
  "regex_exec block_here
      (js ''<use_mcp_tool><server_name>fs</server_name><arguments>{}</arguments></use_mcp_tool>'')
     = Some (js ''<server_name>fs</server_name><arguments>{}</arguments>'', [])
   \<and> parseParameters 3 (js ''<server_name>fs</server_name><arguments>{}</arguments>'')
     = Inr (JObj None [(js ''server_name'', JStr (js ''fs'')), (js ''arguments'', JObj None [])])
   \<and> parseToolRequest 3
      (js ''<use_mcp_tool><server_name>fs</server_name><arguments>{}</arguments></use_mcp_tool>'')
     = Inl (missing_field (js ''tool_name''))
   \<and> parseParameters 3
      (js ''<__proto__>{\"server_name\":\"fs\",\"tool_name\":\"cat\",\"arguments\":{}}</__proto__>'')
     = Inr (JObj (Some (JObj None [(js ''server_name'', JStr (js ''fs'')),
                                   (js ''tool_name'', JStr (js ''cat'')),
                                   (js ''arguments'', JObj None [])])) [])
   \<and> parseToolRequest 3
      (js ''<use_mcp_tool><__proto__>{\"server_name\":\"fs\",\"tool_name\":\"cat\",\"arguments\":{}}</__proto__></use_mcp_tool>'')
     = Inr \<lparr>toolName = JStr (js ''cat''), serverName = JStr (js ''fs''), arguments = JObj None [],
            raw = js ''<use_mcp_tool><__proto__>{\"server_name\":\"fs\",\"tool_name\":\"cat\",\"arguments\":{}}</__proto__></use_mcp_tool>''\<rparr>"
proof -
  let ?t = "js ''<use_mcp_tool><server_name>fs</server_name><arguments>{}</arguments></use_mcp_tool>''"
  let ?c = "js ''<server_name>fs</server_name><arguments>{}</arguments>''"
  let ?p = "JObj None [(js ''server_name'', JStr (js ''fs'')), (js ''arguments'', JObj None [])]"
  let ?t2 = "js ''<use_mcp_tool><__proto__>{\"server_name\":\"fs\",\"tool_name\":\"cat\",\"arguments\":{}}</__proto__></use_mcp_tool>''"
  let ?c2 = "js ''<__proto__>{\"server_name\":\"fs\",\"tool_name\":\"cat\",\"arguments\":{}}</__proto__>''"
  let ?p2 = "JObj (Some (JObj None [(js ''server_name'', JStr (js ''fs'')),
                                   (js ''tool_name'', JStr (js ''cat'')),
                                   (js ''arguments'', JObj None [])])) []"
  have b: "regex_exec block_here ?t = Some (?c, [])"
    by (simp add: regex_eval string_eval)
  have p: "parseParameters 3 ?c = Inr ?p"
    by (simp add: parser_eval regex_eval string_eval number_eval json_eval)
  have s: "truthy (obj_get ?p (js ''server_name''))"
    by (simp add: obj_get_def js_def)
  have t: "\<not> truthy (obj_get ?p (js ''tool_name''))"
    by (simp add: obj_get_def js_def)
  from parseToolRequest_required_keys[of ?t ?c "[]" 3 ?p] b p s t
  have r: "parseToolRequest 3 ?t = Inl (missing_field (js ''tool_name''))" by blast
  have p2: "parseParameters 3 ?c2 = Inr ?p2"
    by (simp add: parser_eval regex_eval string_eval number_eval json_eval)
  have r2: "parseToolRequest 3 ?t2
     = Inr \<lparr>toolName = JStr (js ''cat''), serverName = JStr (js ''fs''), arguments = JObj None [],
            raw = ?t2\<rparr>"
    by (simp add: parser_eval regex_eval string_eval number_eval json_eval)
  from b p r p2 r2 show ?thesis by blast
qed

text \<open>
  Against C2 as it is stated: in this block \<open>server_name\<close> is present (its value is the
  number 0) and the first key that is missing is \<open>tool_name\<close>, yet the failure names
  \<open>server_name\<close>.
\<close>

theorem parseToolRequest_required_keys_counterexample:
  "regex_exec block_here
      (js ''<use_mcp_tool><server_name>0</server_name><arguments>{}</arguments></use_mcp_tool>'')
     = Some (js ''<server_name>0</server_name><arguments>{}</arguments>'', [])
   \<and> parseParameters 3 (js ''<server_name>0</server_name><arguments>{}</arguments>'')
     = Inr (JObj None [(js ''server_name'', JNum (Fin 0)), (js ''arguments'', JObj None [])])
   \<and> own_property (JObj None [(js ''server_name'', JNum (Fin 0)), (js ''arguments'', JObj None [])])
        (js ''server_name'')
     = Some (JNum (Fin 0))
   \<and> lookup (JObj None [(js ''server_name'', JNum (Fin 0)), (js ''arguments'', JObj None [])])
        (js ''tool_name'')
     = None
   \<and> parseToolRequest 3
      (js ''<use_mcp_tool><server_name>0</server_name><arguments>{}</arguments></use_mcp_tool>'')
     = Inl (missing_field (js ''server_name''))
   \<and> parseToolRequest 3
      (js ''<use_mcp_tool><server_name>0</server_name><arguments>{}</arguments></use_mcp_tool>'')
     \<noteq> Inl (missing_field (js ''tool_name''))"
proof -
  let ?t = "js ''<use_mcp_tool><server_name>0</server_name><arguments>{}</arguments></use_mcp_tool>''"
  let ?c = "js ''<server_name>0</server_name><arguments>{}</arguments>''"
  let ?p = "JObj None [(js ''server_name'', JNum (Fin 0)), (js ''arguments'', JObj None [])]"
  have b: "regex_exec block_here ?t = Some (?c, [])"
    by (simp add: regex_eval string_eval)
  have p: "parseParameters 3 ?c = Inr ?p"
    by (simp add: parser_eval regex_eval string_eval number_eval json_eval)
  have m1: "own_property ?p (js ''server_name'') = Some (JNum (Fin 0))" by simp
  have m2: "lookup ?p (js ''tool_name'') = None" by (simp add: js_def)
  have r: "parseToolRequest 3 ?t = Inl (missing_field (js ''server_name''))"
    using requestOfParams_missing[of ?p ?t] by (simp add: parseToolRequest_block[OF b p] obj_get_def)
  then have "parseToolRequest 3 ?t \<noteq> Inl (missing_field (js ''tool_name''))"
    using required_keys_distinct by (simp add: missing_field_inject)
  with b p m1 m2 r show ?thesis by blast
qed

section \<open>Required keys with falsy values\<close>

lemma required_key_not_proto: "k \<in> set required_keys \<Longrightarrow> k \<noteq> js ''__proto__''"
proof -
  have "js ''__proto__'' \<notin> set required_keys"
    by (simp add: required_keys_def js_def)
  then show "k \<in> set required_keys \<Longrightarrow> k \<noteq> js ''__proto__''" by blast
qed

lemma requestOfParams_first_falsy:
  assumes "k \<in> set required_keys" "\<not> truthy (obj_get params k)"
    and "list_all (\<lambda>k'. truthy (obj_get params k')) (takeWhile (\<lambda>k'. k' \<noteq> k) required_keys)"
  shows "requestOfParams text params = Inl (missing_field k)"
proof -
  from assms(1) consider "k = js ''server_name''" | "k = js ''tool_name''" | "k = js ''arguments''"
    by (auto simp: required_keys_def)
  then show ?thesis
  proof cases
    case 1
    with assms(2) requestOfParams_missing[of params "text"] show ?thesis by simp
  next
    case 2
    with assms(2,3) required_keys_distinct requestOfParams_missing[of params "text"] show ?thesis
      by (simp add: required_keys_def)
  next
    case 3
    with assms(2,3) required_keys_distinct requestOfParams_missing[of params "text"] show ?thesis
      by (simp add: required_keys_def)
  qed
qed

text \<open>
  C10, as the code has it. When the last tag of one of the names \<open>server_name\<close>,
  \<open>tool_name\<close>, \<open>arguments\<close> in a block stores a falsy value, and the keys checked
  before it are truthy, \<open>parseToolRequest\<close> gives the missing-field failure that names
  the key: the failure it gives, under the same condition, when the key is found nowhere
  in the tree. The contents \<^verbatim>\<open>false\<close>, \<^verbatim>\<open>0\<close> and a blank store the falsy values false,
  0 and the empty string.
\<close>

theorem parseToolRequest_falsy_key:
  "(regex_exec block_here text = Some (content, rest)
      \<and> parseParameters (Suc depth) content = Inr params
      \<and> k \<in> set required_keys
      \<and> list_all (\<lambda>k'. truthy (obj_get params k')) (takeWhile (\<lambda>k'. k' \<noteq> k) required_keys) \<longrightarrow>
      (tag_matches content = before @ (k, v) # after \<and> k \<notin> fst ` set after
         \<and> \<not> truthy (stored_value (parseParameters depth) v) \<longrightarrow>
       own_property params k = Some (stored_value (parseParameters depth) v)
       \<and> parseToolRequest (Suc depth) text = Inl (missing_field k))
      \<and> (lookup params k = None \<longrightarrow>
           parseToolRequest (Suc depth) text = Inl (missing_field k)))
   \<and> stored_value nested (js ''false'') = JBool False \<and> \<not> truthy (JBool False)
   \<and> stored_value nested (js ''0'') = JNum (Fin 0) \<and> \<not> truthy (JNum (Fin 0))
   \<and> stored_value nested (js ''  '') = JStr [] \<and> \<not> truthy (JStr [])"
proof -
  have "(tag_matches content = before @ (k, v) # after \<and> k \<notin> fst ` set after
         \<and> \<not> truthy (stored_value (parseParameters depth) v) \<longrightarrow>
       own_property params k = Some (stored_value (parseParameters depth) v)
       \<and> parseToolRequest (Suc depth) text = Inl (missing_field k))
      \<and> (lookup params k = None \<longrightarrow>
           parseToolRequest (Suc depth) text = Inl (missing_field k))"
    if b: "regex_exec block_here text = Some (content, rest)"
      and p: "parseParameters (Suc depth) content = Inr params"
      and k: "k \<in> set required_keys"
      and e: "list_all (\<lambda>k'. truthy (obj_get params k')) (takeWhile (\<lambda>k'. k' \<noteq> k) required_keys)"
  proof -
    have r: "parseToolRequest (Suc depth) text = requestOfParams text params"
      using b p by (rule parseToolRequest_block)
    have "own_property params k = Some (stored_value (parseParameters depth) v)
       \<and> parseToolRequest (Suc depth) text = Inl (missing_field k)"
      if m: "tag_matches content = before @ (k, v) # after" "k \<notin> fst ` set after"
        and f: "\<not> truthy (stored_value (parseParameters depth) v)"
    proof -
      note l = parseParameters_last_occurrence[OF p m required_key_not_proto[OF k]]
      from l(2) f have "\<not> truthy (obj_get params k)" by simp
      from requestOfParams_first_falsy[OF k this e] l(1) r show ?thesis by simp
    qed
    moreover have "parseToolRequest (Suc depth) text = Inl (missing_field k)"
      if "lookup params k = None"
      using requestOfParams_first_falsy[OF k obj_get_absent[OF that] e] r by simp
    ultimately show ?thesis by blast
  qed
  moreover have "stored_value nested (js ''false'') = JBool False"
    by (simp add: stored_value_def normalizeValue_def regex_eval string_eval)
  moreover have "stored_value nested (js ''0'') = JNum (Fin 0)"
    by (simp add: stored_value_def normalizeValue_def regex_eval string_eval number_eval)
  moreover have "stored_value nested (js ''  '') = JStr []"
    by (simp add: stored_value_def normalizeValue_def regex_eval string_eval)
  ultimately show ?thesis by simp
qed

text \<open>
  A block whose \<open>tool_name\<close> is \<^verbatim>\<open>false\<close>, after a \<open>server_name\<close> that is a name: the
  failure names \<open>tool_name\<close>, as it does for the block without \<open>tool_name\<close>.
\<close>

theorem parseToolRequest_falsy_key_witness:
  "tag_matches (js ''<server_name>fs</server_name><tool_name>false</tool_name><arguments>{}</arguments>'')
     = [(js ''server_name'', js ''fs'')] @ (js ''tool_name'', js ''false'')
         # [(js ''arguments'', js ''{}'')]
   \<and> parseParameters (Suc 0) (js ''<server_name>fs</server_name><tool_name>false</tool_name><arguments>{}</arguments>'')
     = Inr (JObj None [(js ''server_name'', JStr (js ''fs'')), (js ''tool_name'', JBool False),
            (js ''arguments'', JObj None [])])
   \<and> parseToolRequest (Suc 0) (js ''<use_mcp_tool><server_name>fs</server_name><tool_name>false</tool_name><arguments>{}</arguments></use_mcp_tool>'')
     = Inl (missing_field (js ''tool_name''))
   \<and> parseToolRequest (Suc 0) (js ''<use_mcp_tool><server_name>fs</server_name><arguments>{}</arguments></use_mcp_tool>'')
     = Inl (missing_field (js ''tool_name''))"
proof -
  let ?t = "js ''<use_mcp_tool><server_name>fs</server_name><tool_name>false</tool_name><arguments>{}</arguments></use_mcp_tool>''"
  let ?c = "js ''<server_name>fs</server_name><tool_name>false</tool_name><arguments>{}</arguments>''"
  let ?p = "JObj None [(js ''server_name'', JStr (js ''fs'')), (js ''tool_name'', JBool False),
            (js ''arguments'', JObj None [])]"
  let ?t2 = "js ''<use_mcp_tool><server_name>fs</server_name><arguments>{}</arguments></use_mcp_tool>''"
  let ?c2 = "js ''<server_name>fs</server_name><arguments>{}</arguments>''"
  let ?p2 = "JObj None [(js ''server_name'', JStr (js ''fs'')), (js ''arguments'', JObj None [])]"
  have b: "regex_exec block_here ?t = Some (?c, [])"
    by (simp add: regex_eval string_eval)
  have m: "tag_matches ?c = [(js ''server_name'', js ''fs'')] @ (js ''tool_name'', js ''false'')
         # [(js ''arguments'', js ''{}'')]"
    by (simp add: tag_matches.simps regex_eval string_eval)
  have a: "js ''tool_name'' \<notin> fst ` set [(js ''arguments'', js ''{}'')]"
    by (simp add: js_def)
  have p: "parseParameters (Suc 0) ?c = Inr ?p"
    by (simp add: parser_eval regex_eval string_eval number_eval json_eval)
  have k: "js ''tool_name'' \<in> set required_keys" by (simp add: required_keys_def)
  have f: "\<not> truthy (stored_value (parseParameters 0) (js ''false''))"
    by (simp add: stored_value_def normalizeValue_def regex_eval string_eval)
  have e: "list_all (\<lambda>k'. truthy (obj_get ?p k'))
             (takeWhile (\<lambda>k'. k' \<noteq> js ''tool_name'') required_keys)"
    by (simp add: required_keys_def obj_get_def js_def)
  from parseToolRequest_falsy_key[of ?t ?c "[]" 0 ?p "js ''tool_name''"
      "[(js ''server_name'', js ''fs'')]" "js ''false''" "[(js ''arguments'', js ''{}'')]"]
    b p k e m a f
  have r: "parseToolRequest (Suc 0) ?t = Inl (missing_field (js ''tool_name''))" by blast
  have b2: "regex_exec block_here ?t2 = Some (?c2, [])"
    by (simp add: regex_eval string_eval)
  have p2: "parseParameters (Suc 0) ?c2 = Inr ?p2"
    by (simp add: parser_eval regex_eval string_eval number_eval json_eval)
  have e2: "list_all (\<lambda>k'. truthy (obj_get ?p2 k'))
             (takeWhile (\<lambda>k'. k' \<noteq> js ''tool_name'') required_keys)"
    by (simp add: required_keys_def obj_get_def js_def)
  have l2: "lookup ?p2 (js ''tool_name'') = None" by (simp add: js_def)
  from parseToolRequest_falsy_key[of ?t2 ?c2 "[]" 0 ?p2 "js ''tool_name''"] b2 p2 k e2 l2
  have r2: "parseToolRequest (Suc 0) ?t2 = Inl (missing_field (js ''tool_name''))" by blast
  from m p r r2 show ?thesis by blast
qed

text \<open>
  Against C10 as it is stated: in this block the tag \<open>tool_name\<close> is present and its
  value is the falsy \<^verbatim>\<open>false\<close>, yet the failure does not name \<open>tool_name\<close>: it names
  \<open>server_name\<close>, whose value 0 is falsy and which is checked first.
\<close>

theorem parseToolRequest_falsy_key_counterexample:
  "parseParameters (Suc 0) (js ''<server_name>0</server_name><tool_name>false</tool_name><arguments>{}</arguments>'')
     = Inr (JObj None [(js ''server_name'', JNum (Fin 0)), (js ''tool_name'', JBool False),
            (js ''arguments'', JObj None [])])
   \<and> own_property (JObj None [(js ''server_name'', JNum (Fin 0)), (js ''tool_name'', JBool False),
            (js ''arguments'', JObj None [])]) (js ''tool_name'') = Some (JBool False)
   \<and> \<not> truthy (JBool False)
   \<and> parseToolRequest (Suc 0) (js ''<use_mcp_tool><server_name>0</server_name><tool_name>false</tool_name><arguments>{}</arguments></use_mcp_tool>'')
     = Inl (missing_field (js ''server_name''))
   \<and> parseToolRequest (Suc 0) (js ''<use_mcp_tool><server_name>0</server_name><tool_name>false</tool_name><arguments>{}</arguments></use_mcp_tool>'')
     \<noteq> Inl (missing_field (js ''tool_name''))"
proof -
  let ?t = "js ''<use_mcp_tool><server_name>0</server_name><tool_name>false</tool_name><arguments>{}</arguments></use_mcp_tool>''"
  let ?c = "js ''<server_name>0</server_name><tool_name>false</tool_name><arguments>{}</arguments>''"
  let ?p = "JObj None [(js ''server_name'', JNum (Fin 0)), (js ''tool_name'', JBool False),
            (js ''arguments'', JObj None [])]"
  have b: "regex_exec block_here ?t = Some (?c, [])"
    by (simp add: regex_eval string_eval)
  have p: "parseParameters (Suc 0) ?c = Inr ?p"
    by (simp add: parser_eval regex_eval string_eval number_eval json_eval)
  have o: "own_property ?p (js ''tool_name'') = Some (JBool False)" by (simp add: js_def)
  have r: "parseToolRequest (Suc 0) ?t = Inl (missing_field (js ''server_name''))"
    using requestOfParams_missing[of ?p ?t] by (simp add: parseToolRequest_block[OF b p] obj_get_def)
  then have "parseToolRequest (Suc 0) ?t \<noteq> Inl (missing_field (js ''tool_name''))"
    using required_keys_distinct by (simp add: missing_field_inject)
  with p o r show ?thesis by simp
qed

section \<open>The arguments of a block\<close>

lemma requestOfParams_arguments:
  assumes "truthy (obj_get params (js ''server_name''))"
    "truthy (obj_get params (js ''tool_name''))"
    "truthy (obj_get params (js ''arguments''))"
  shows
    "(obj_get params (js ''arguments'') = JStr s \<and> JSON_parse s = None \<longrightarrow>
        requestOfParams text params = Inl (XmlParseError (Msg (js ''Invalid JSON in tool arguments''))))
     \<and> (obj_get params (js ''arguments'') = JStr s \<and> JSON_parse s = Some parsed \<longrightarrow>
        requestOfParams text params =
          validated \<lparr>toolName = obj_get params (js ''tool_name''),
                     serverName = obj_get params (js ''server_name''),
                     arguments = parsed, raw = text\<rparr>)
     \<and> (\<not> typeof_string (obj_get params (js ''arguments'')) \<longrightarrow>
        requestOfParams text params =
          validated \<lparr>toolName = obj_get params (js ''tool_name''),
                     serverName = obj_get params (js ''server_name''),
                     arguments = obj_get params (js ''arguments''), raw = text\<rparr>)"
  using assms
  by (cases "obj_get params (js ''arguments'')")
     (simp_all add: requestOfParams_def validated_def Let_def)

text \<open>
  C3. In a block whose three keys pass their checks: when \<open>arguments\<close> holds a string,
  \<open>parseToolRequest\<close> parses it with \<open>JSON.parse\<close>; a parse failure gives the failure
  \<^verbatim>\<open>Invalid JSON in tool arguments\<close>, and a parsed value becomes the arguments of the
  request. When \<open>arguments\<close> holds a value that is not a string (the tree of nested tags,
  or a value \<open>normalizeValue\<close> parsed already), that value is the arguments of the request,
  and \<open>JSON.parse\<close> is not applied to it.
\<close>

theorem parseToolRequest_arguments:
  "regex_exec block_here text = Some (content, rest) \<and> parseParameters depth content = Inr params
     \<and> truthy (obj_get params (js ''server_name''))
     \<and> truthy (obj_get params (js ''tool_name''))
     \<and> truthy (obj_get params (js ''arguments'')) \<longrightarrow>
     (obj_get params (js ''arguments'') = JStr s \<and> JSON_parse s = None \<longrightarrow>
        parseToolRequest depth text = Inl (XmlParseError (Msg (js ''Invalid JSON in tool arguments''))))
     \<and> (obj_get params (js ''arguments'') = JStr s \<and> JSON_parse s = Some parsed \<longrightarrow>
        parseToolRequest depth text =
          validated \<lparr>toolName = obj_get params (js ''tool_name''),
                     serverName = obj_get params (js ''server_name''),
                     arguments = parsed, raw = text\<rparr>)
     \<and> (\<not> typeof_string (obj_get params (js ''arguments'')) \<longrightarrow>
        parseToolRequest depth text =
          validated \<lparr>toolName = obj_get params (js ''tool_name''),
                     serverName = obj_get params (js ''server_name''),
                     arguments = obj_get params (js ''arguments''), raw = text\<rparr>)"
proof (intro impI, elim conjE)
  assume b: "regex_exec block_here text = Some (content, rest)" "parseParameters depth content = Inr params"
    and t: "truthy (obj_get params (js ''server_name''))"
      "truthy (obj_get params (js ''tool_name''))"
      "truthy (obj_get params (js ''arguments''))"
  have p: "parseToolRequest depth text = requestOfParams text params"
    using b by (rule parseToolRequest_block)
  show "(obj_get params (js ''arguments'') = JStr s \<and> JSON_parse s = None \<longrightarrow>
        parseToolRequest depth text = Inl (XmlParseError (Msg (js ''Invalid JSON in tool arguments''))))
     \<and> (obj_get params (js ''arguments'') = JStr s \<and> JSON_parse s = Some parsed \<longrightarrow>
        parseToolRequest depth text =
          validated \<lparr>toolName = obj_get params (js ''tool_name''),
                     serverName = obj_get params (js ''server_name''),
                     arguments = parsed, raw = text\<rparr>)
     \<and> (\<not> typeof_string (obj_get params (js ''arguments'')) \<longrightarrow>
        parseToolRequest depth text =
          validated \<lparr>toolName = obj_get params (js ''tool_name''),
                     serverName = obj_get params (js ''server_name''),
                     arguments = obj_get params (js ''arguments''), raw = text\<rparr>)"
    unfolding p by (rule requestOfParams_arguments[OF t])
qed

text \<open>
  Arguments \<^verbatim>\<open>{bad}\<close>, which \<open>normalizeValue\<close> leaves a string: the JSON failure. Arguments
  given as the nested tag \<open>path\<close>: the tree is the arguments of the request.
\<close>

theorem parseToolRequest_arguments_witness:
  "parseToolRequest 3 (js ''<use_mcp_tool><server_name>fs</server_name><tool_name>cat</tool_name><arguments>{bad}</arguments></use_mcp_tool>'')
     = Inl (XmlParseError (Msg (js ''Invalid JSON in tool arguments'')))
   \<and> parseToolRequest 3 (js ''<use_mcp_tool><server_name>fs</server_name><tool_name>cat</tool_name><arguments><path>a.txt</path></arguments></use_mcp_tool>'')
     = Inr \<lparr>toolName = JStr (js ''cat''), serverName = JStr (js ''fs''),
            arguments = JObj None [(js ''path'', JStr (js ''a.txt''))],
            raw = js ''<use_mcp_tool><server_name>fs</server_name><tool_name>cat</tool_name><arguments><path>a.txt</path></arguments></use_mcp_tool>''\<rparr>"
proof -
  let ?t1 = "js ''<use_mcp_tool><server_name>fs</server_name><tool_name>cat</tool_name><arguments>{bad}</arguments></use_mcp_tool>''"
  let ?c1 = "js ''<server_name>fs</server_name><tool_name>cat</tool_name><arguments>{bad}</arguments>''"
  let ?p1 = "JObj None [(js ''server_name'', JStr (js ''fs'')), (js ''tool_name'', JStr (js ''cat'')),
              (js ''arguments'', JStr (js ''{bad}''))]"
  let ?t2 = "js ''<use_mcp_tool><server_name>fs</server_name><tool_name>cat</tool_name><arguments><path>a.txt</path></arguments></use_mcp_tool>''"
  let ?c2 = "js ''<server_name>fs</server_name><tool_name>cat</tool_name><arguments><path>a.txt</path></arguments>''"
  let ?p2 = "JObj None [(js ''server_name'', JStr (js ''fs'')), (js ''tool_name'', JStr (js ''cat'')),
              (js ''arguments'', JObj None [(js ''path'', JStr (js ''a.txt''))])]"
  have b1: "regex_exec block_here ?t1 = Some (?c1, [])"
    by (simp add: regex_eval string_eval)
  have p1: "parseParameters 3 ?c1 = Inr ?p1"
    by (simp add: parser_eval regex_eval string_eval number_eval json_eval)
  have g1: "obj_get ?p1 (js ''server_name'') = JStr (js ''fs'')"
    "obj_get ?p1 (js ''tool_name'') = JStr (js ''cat'')"
    "obj_get ?p1 (js ''arguments'') = JStr (js ''{bad}'')"
    by (simp_all add: obj_get_def js_def)
  have t1: "truthy (JStr (js ''fs''))" "truthy (JStr (js ''cat''))" "truthy (JStr (js ''{bad}''))"
    by (simp_all add: js_def)
  have j1: "JSON_parse (js ''{bad}'') = None"
    by (simp add: json_eval string_eval)
  from parseToolRequest_arguments[of ?t1 ?c1 "[]" 3 ?p1 "js ''{bad}''" undefined] b1 p1 t1 j1
  have r1: "parseToolRequest 3 ?t1 = Inl (XmlParseError (Msg (js ''Invalid JSON in tool arguments'')))"
    by (simp add: g1)
  have b2: "regex_exec block_here ?t2 = Some (?c2, [])"
    by (simp add: regex_eval string_eval)
  have p2: "parseParameters 3 ?c2 = Inr ?p2"
    by (simp add: parser_eval regex_eval string_eval number_eval json_eval)
  have g2: "obj_get ?p2 (js ''server_name'') = JStr (js ''fs'')"
    "obj_get ?p2 (js ''tool_name'') = JStr (js ''cat'')"
    "obj_get ?p2 (js ''arguments'') = JObj None [(js ''path'', JStr (js ''a.txt''))]"
    by (simp_all add: obj_get_def js_def)
  have v2: "validateToolRequest \<lparr>toolName = JStr (js ''cat''), serverName = JStr (js ''fs''),
            arguments = JObj None [(js ''path'', JStr (js ''a.txt''))], raw = ?t2\<rparr> = Inr ()"
    by (simp add: validateToolRequest_def isValidToolName_def regex_test_def to_string_primitive
        server_name_pattern_def tool_name_pattern_def is_lower_def js_def)
  from parseToolRequest_arguments[of ?t2 ?c2 "[]" 3 ?p2 undefined undefined] b2 p2 t1
  have "parseToolRequest 3 ?t2 = validated \<lparr>toolName = JStr (js ''cat''), serverName = JStr (js ''fs''),
            arguments = JObj None [(js ''path'', JStr (js ''a.txt''))], raw = ?t2\<rparr>"
    by (simp add: g2)
  with v2 have r2: "parseToolRequest 3 ?t2 = Inr \<lparr>toolName = JStr (js ''cat''), serverName = JStr (js ''fs''),
            arguments = JObj None [(js ''path'', JStr (js ''a.txt''))], raw = ?t2\<rparr>"
    by (simp add: validated_def)
  from r1 r2 show ?thesis by blast
qed

section \<open>Failure isolation in parseToolRequests\<close>

lemma blocks_Nil: "regex_exec block_here text = None \<Longrightarrow> blocks text = []"
  by (simp add: blocks.simps[of "text"])

lemma blocks_Cons:
  "regex_exec block_here text = Some (content, rest) \<Longrightarrow>
     blocks text = (open_marker @ content @ close_marker) # blocks rest"
  by (simp add: blocks.simps[of "text"])

lemma expected_error: "\<not> unexpected (Inl e) \<Longrightarrow> \<exists>m. e = XmlParseError m"
  by (cases e) simp_all

lemma parseToolRequests_loop_ok:
  "list_all (\<lambda>b. \<not> unexpected (build b)) (blocks input) \<Longrightarrow>
     parseToolRequests_loop build requests warned input =
       (Inr (requests @ built (map build (blocks input))),
        warned @ skipped (map build (blocks input)))"
proof (induction build requests warned input rule: parseToolRequests_loop.induct)
  case (1 build requests warned input)
  show ?case
  proof (cases "regex_exec block_here input")
    case None
    then show ?thesis
      by (simp add: parseToolRequests_loop.simps[of build requests warned input] blocks_Nil)
  next
    case (Some m)
    obtain content rest where m: "m = (content, rest)" by (cases m)
    let ?b = "open_marker @ content @ close_marker"
    have bl: "blocks input = ?b # blocks rest" using Some m by (simp add: blocks_Cons)
    with "1.prems" have ok: "\<not> unexpected (build ?b)"
      and okr: "list_all (\<lambda>b. \<not> unexpected (build b)) (blocks rest)" by simp_all
    show ?thesis
    proof (cases "build ?b")
      case (Inr request)
      with "1.IH"(2)[OF Some m[symmetric] Inr okr] Some m bl show ?thesis
        by (simp add: parseToolRequests_loop.simps[of build requests warned input])
    next
      case (Inl e)
      with ok obtain msg where e: "e = XmlParseError msg"
        using expected_error by auto
      with "1.IH"(1)[OF Some m[symmetric] Inl e okr] Some m bl Inl show ?thesis
        by (simp add: parseToolRequests_loop.simps[of build requests warned input])
    qed
  qed
qed

lemma parseToolRequests_loop_abort:
  "blocks input = before @ b # after \<Longrightarrow>
     list_all (\<lambda>b. \<not> unexpected (build b)) before \<Longrightarrow>
     build b = Inl e \<Longrightarrow> unexpected (Inl e) \<Longrightarrow>
     parseToolRequests_loop build requests warned input =
       (Inl e, warned @ skipped (map build before))"
proof (induction build requests warned input arbitrary: before
        rule: parseToolRequests_loop.induct)
  case (1 build requests warned input)
  show ?case
  proof (cases "regex_exec block_here input")
    case None
    with "1.prems"(1) show ?thesis by (simp add: blocks_Nil)
  next
    case (Some m)
    obtain content rest where m: "m = (content, rest)" by (cases m)
    let ?b = "open_marker @ content @ close_marker"
    have bl: "blocks input = ?b # blocks rest" using Some m by (simp add: blocks_Cons)
    show ?thesis
    proof (cases before)
      case Nil
      with bl "1.prems"(1) have "?b = b" by simp
      with "1.prems"(3,4) Some m Nil show ?thesis
        by (cases e) (simp_all add: parseToolRequests_loop.simps[of build requests warned input])
    next
      case (Cons b0 before')
      with bl "1.prems"(1) have b0: "b0 = ?b" and br: "blocks rest = before' @ b # after"
        by simp_all
      from "1.prems"(2) Cons b0 have ok: "\<not> unexpected (build ?b)"
        and okr: "list_all (\<lambda>b. \<not> unexpected (build b)) before'" by simp_all
      show ?thesis
      proof (cases "build ?b")
        case (Inr request)
        with "1.IH"(2)[OF Some m[symmetric] Inr br okr "1.prems"(3,4)] Some m Cons b0 show ?thesis
          by (simp add: parseToolRequests_loop.simps[of build requests warned input])
      next
        case (Inl e')
        with ok obtain msg where e': "e' = XmlParseError msg"
          using expected_error by auto
        with "1.IH"(1)[OF Some m[symmetric] Inl e' br okr "1.prems"(3,4)] Some m Cons b0 Inl
        show ?thesis
          by (simp add: parseToolRequests_loop.simps[of build requests warned input])
      qed
    qed
  qed
qed

lemma length_built: "length (built outcomes) = length (filter (\<lambda>x. \<not> isl x) outcomes)"
  by (induction outcomes rule: built.induct) simp_all

lemma length_skipped:
  "list_all (\<lambda>x. \<not> unexpected x) outcomes \<Longrightarrow>
     length (skipped outcomes) = length (filter isl outcomes)"
  by (induction outcomes rule: skipped.induct) simp_all

text \<open>
  C1. In the loop of \<open>parseToolRequests\<close>, a block whose build fails with an
  \<open>XmlParseError\<close> is skipped with one message logged, and the loop goes on with the next
  block: when no build throws another error, the call returns the requests of the blocks
  that built, in order, and has logged the messages of the others, one for each; so of
  three blocks of which one fails in this way, two requests are returned and one message
  is logged. An error that is not an \<open>XmlParseError\<close> ends the call at its block and is
  thrown to the caller, with the messages logged before it. The build of the program is
  \<open>parseToolRequest\<close>.
\<close>

theorem parseToolRequests_failure_isolation:
  "(list_all (\<lambda>b. \<not> unexpected (build b)) (blocks text) \<longrightarrow>
      parseToolRequests_with build text =
        (Inr (built (map build (blocks text))), skipped (map build (blocks text)))
      \<and> length (built (map build (blocks text)))
          = length (filter (\<lambda>b. \<not> isl (build b)) (blocks text))
      \<and> length (skipped (map build (blocks text)))
          = length (filter (\<lambda>b. isl (build b)) (blocks text)))
   \<and> (blocks text = before @ b # after \<and> list_all (\<lambda>b. \<not> unexpected (build b)) before
        \<and> build b = Inl e \<and> unexpected (Inl e) \<longrightarrow>
      parseToolRequests_with build text = (Inl e, skipped (map build before)))
   \<and> (list_all (\<lambda>b. \<not> unexpected (build b)) (blocks text) \<and> length (blocks text) = 3
        \<and> length (filter (\<lambda>b. isl (build b)) (blocks text)) = 1 \<longrightarrow>
      (\<exists>requests warned. parseToolRequests_with build text = (Inr requests, warned)
         \<and> length requests = 2 \<and> length warned = 1))
   \<and> parseToolRequests depth text = parseToolRequests_with (parseToolRequest depth) text"
proof -
  have count: "length (built (map f bs)) = length (filter (\<lambda>b. \<not> isl (f b)) bs)
      \<and> (list_all (\<lambda>b. \<not> unexpected (f b)) bs \<longrightarrow>
           length (skipped (map f bs)) = length (filter (\<lambda>b. isl (f b)) bs))"
    for f :: "jsstring \<Rightarrow> error + request" and bs
    using length_built[of "map f bs"] length_skipped[of "map f bs"]
    by (simp add: filter_map comp_def list_all_iff)
  have a: "list_all (\<lambda>b. \<not> unexpected (build b)) (blocks text) \<longrightarrow>
      parseToolRequests_with build text =
        (Inr (built (map build (blocks text))), skipped (map build (blocks text)))
      \<and> length (built (map build (blocks text)))
          = length (filter (\<lambda>b. \<not> isl (build b)) (blocks text))
      \<and> length (skipped (map build (blocks text)))
          = length (filter (\<lambda>b. isl (build b)) (blocks text))"
    using count[of build "blocks text"]
    by (simp add: parseToolRequests_with_def parseToolRequests_loop_ok)
  have b: "blocks text = before @ b # after \<and> list_all (\<lambda>b. \<not> unexpected (build b)) before
        \<and> build b = Inl e \<and> unexpected (Inl e) \<longrightarrow>
      parseToolRequests_with build text = (Inl e, skipped (map build before))"
    using parseToolRequests_loop_abort[of "text" before b after build e "[]" "[]"]
    by (simp add: parseToolRequests_with_def)
  have c: "list_all (\<lambda>b. \<not> unexpected (build b)) (blocks text) \<and> length (blocks text) = 3
        \<and> length (filter (\<lambda>b. isl (build b)) (blocks text)) = 1 \<longrightarrow>
      (\<exists>requests warned. parseToolRequests_with build text = (Inr requests, warned)
         \<and> length requests = 2 \<and> length warned = 1)"
    using a sum_length_filter_compl[of "\<lambda>b. isl (build b)" "blocks text"]
    by simp
  have d: "parseToolRequests depth text = parseToolRequests_with (parseToolRequest depth) text"
    by (simp add: parseToolRequests_def)
  from a b c d show ?thesis by blast
qed

text \<open>
  Three blocks in a sentence, the second without \<open>tool_name\<close>: the first and the third
  are returned and one message is logged. With a second block whose \<open>server_name\<close> holds
  the nested tag \<^verbatim>\<open>toString\<close>, the build of that block throws a TypeError: the call throws
  it, and the request of the first block is not returned.
\<close>

theorem parseToolRequests_failure_isolation_witness:
  "blocks (js ''Read <use_mcp_tool><server_name>fs</server_name><tool_name>cat</tool_name><arguments>{}</arguments></use_mcp_tool>, then <use_mcp_tool><server_name>fs</server_name><arguments>{}</arguments></use_mcp_tool> and <use_mcp_tool><server_name>db</server_name><tool_name>get</tool_name><arguments><id>7</id></arguments></use_mcp_tool>.'')
     = [js ''<use_mcp_tool><server_name>fs</server_name><tool_name>cat</tool_name><arguments>{}</arguments></use_mcp_tool>'',
        js ''<use_mcp_tool><server_name>fs</server_name><arguments>{}</arguments></use_mcp_tool>'',
        js ''<use_mcp_tool><server_name>db</server_name><tool_name>get</tool_name><arguments><id>7</id></arguments></use_mcp_tool>'']
   \<and> parseToolRequests 3 (js ''Read <use_mcp_tool><server_name>fs</server_name><tool_name>cat</tool_name><arguments>{}</arguments></use_mcp_tool>, then <use_mcp_tool><server_name>fs</server_name><arguments>{}</arguments></use_mcp_tool> and <use_mcp_tool><server_name>db</server_name><tool_name>get</tool_name><arguments><id>7</id></arguments></use_mcp_tool>.'')
     = (Inr [\<lparr>toolName = JStr (js ''cat''), serverName = JStr (js ''fs''), arguments = JObj None [],
              raw = js ''<use_mcp_tool><server_name>fs</server_name><tool_name>cat</tool_name><arguments>{}</arguments></use_mcp_tool>''\<rparr>,
             \<lparr>toolName = JStr (js ''get''), serverName = JStr (js ''db''),
              arguments = JObj None [(js ''id'', JNum (Fin 7))],
              raw = js ''<use_mcp_tool><server_name>db</server_name><tool_name>get</tool_name><arguments><id>7</id></arguments></use_mcp_tool>''\<rparr>],
        [Msg (js ''Missing tool_name in tool request'')])
   \<and> parseToolRequest 3 (js ''<use_mcp_tool><server_name><toString>x</toString></server_name><tool_name>cat</tool_name><arguments>{}</arguments></use_mcp_tool>'')
     = Inl TypeError
   \<and> parseToolRequests 3 (js ''<use_mcp_tool><server_name>fs</server_name><tool_name>cat</tool_name><arguments>{}</arguments></use_mcp_tool><use_mcp_tool><server_name><toString>x</toString></server_name><tool_name>cat</tool_name><arguments>{}</arguments></use_mcp_tool><use_mcp_tool><server_name>db</server_name><tool_name>get</tool_name><arguments><id>7</id></arguments></use_mcp_tool>'')
     = (Inl TypeError, [])"
proof -
  let ?t = "js ''Read <use_mcp_tool><server_name>fs</server_name><tool_name>cat</tool_name><arguments>{}</arguments></use_mcp_tool>, then <use_mcp_tool><server_name>fs</server_name><arguments>{}</arguments></use_mcp_tool> and <use_mcp_tool><server_name>db</server_name><tool_name>get</tool_name><arguments><id>7</id></arguments></use_mcp_tool>.''"
  let ?u = "js ''<use_mcp_tool><server_name>fs</server_name><tool_name>cat</tool_name><arguments>{}</arguments></use_mcp_tool><use_mcp_tool><server_name><toString>x</toString></server_name><tool_name>cat</tool_name><arguments>{}</arguments></use_mcp_tool><use_mcp_tool><server_name>db</server_name><tool_name>get</tool_name><arguments><id>7</id></arguments></use_mcp_tool>''"
  let ?b1 = "js ''<use_mcp_tool><server_name>fs</server_name><tool_name>cat</tool_name><arguments>{}</arguments></use_mcp_tool>''"
  let ?b2 = "js ''<use_mcp_tool><server_name>fs</server_name><arguments>{}</arguments></use_mcp_tool>''"
  let ?b3 = "js ''<use_mcp_tool><server_name>db</server_name><tool_name>get</tool_name><arguments><id>7</id></arguments></use_mcp_tool>''"
  let ?b4 = "js ''<use_mcp_tool><server_name><toString>x</toString></server_name><tool_name>cat</tool_name><arguments>{}</arguments></use_mcp_tool>''"
  have bl: "blocks ?t = [?b1, ?b2, ?b3]"
    by (simp add: blocks.simps regex_eval string_eval)
  have bu: "blocks ?u = [?b1] @ ?b4 # [?b3]"
    by (simp add: blocks.simps regex_eval string_eval)
  have r1: "parseToolRequest 3 ?b1 = Inr \<lparr>toolName = JStr (js ''cat''), serverName = JStr (js ''fs''),
      arguments = JObj None [], raw = ?b1\<rparr>"
    by (simp add: parser_eval regex_eval string_eval number_eval json_eval)
  have r2: "parseToolRequest 3 ?b2 = Inl (XmlParseError (Msg (js ''Missing tool_name in tool request'')))"
    by (simp add: parser_eval regex_eval string_eval number_eval json_eval)
  have r3: "parseToolRequest 3 ?b3 = Inr \<lparr>toolName = JStr (js ''get''), serverName = JStr (js ''db''),
      arguments = JObj None [(js ''id'', JNum (Fin 7))], raw = ?b3\<rparr>"
    by (simp add: parser_eval regex_eval string_eval number_eval json_eval)
  have r4: "parseToolRequest 3 ?b4 = Inl TypeError"
    by (simp add: parser_eval to_string_object regex_eval string_eval number_eval json_eval)
  have ok: "list_all (\<lambda>b. \<not> unexpected (parseToolRequest 3 b)) (blocks ?t)"
    by (simp add: bl r1 r2 r3)
  note t1 = parseToolRequests_failure_isolation[of "parseToolRequest 3" ?t "[]" ?b1 "[?b2, ?b3]"
      undefined 3]
  from t1 ok have "parseToolRequests 3 ?t =
        (Inr (built (map (parseToolRequest 3) (blocks ?t))),
         skipped (map (parseToolRequest 3) (blocks ?t)))"
    by simp
  then have p: "parseToolRequests 3 ?t
     = (Inr [\<lparr>toolName = JStr (js ''cat''), serverName = JStr (js ''fs''), arguments = JObj None [],
              raw = ?b1\<rparr>,
             \<lparr>toolName = JStr (js ''get''), serverName = JStr (js ''db''),
              arguments = JObj None [(js ''id'', JNum (Fin 7))], raw = ?b3\<rparr>],
        [Msg (js ''Missing tool_name in tool request'')])"
    by (simp add: bl r1 r2 r3)
  have ok1: "list_all (\<lambda>b. \<not> unexpected (parseToolRequest 3 b)) [?b1]"
    by (simp add: r1)
  note t2 = parseToolRequests_failure_isolation[of "parseToolRequest 3" ?u "[?b1]" ?b4 "[?b3]"
      TypeError 3]
  from t2 bu ok1 r4 have "parseToolRequests 3 ?u
     = (Inl TypeError, skipped (map (parseToolRequest 3) [?b1]))"
    by simp
  then have q: "parseToolRequests 3 ?u = (Inl TypeError, [])"
    by (simp add: r1)
  from bl p r4 q show ?thesis by blast
qed

section \<open>The blocks parseToolRequests matches\<close>

lemma find_first_minimal:
  "find_first p s = Some (b, a) \<Longrightarrow> s = u @ p @ w \<Longrightarrow> length b \<le> length u"
proof (induction s arbitrary: b u)
  case Nil
  then show ?case by (simp split: if_splits)
next
  case (Cons c cs)
  show ?case
  proof (cases "prefix p (c # cs)")
    case True
    with Cons.prems(1) show ?thesis by simp
  next
    case False
    with Cons.prems(1) obtain b' where b': "find_first p cs = Some (b', a)" "b = c # b'"
      by (auto split: option.splits)
    from False Cons.prems(2) have "u \<noteq> []" by auto
    with Cons.prems(2) obtain u' where "u = c # u'" "cs = u' @ p @ w"
      by (cases u) auto
    with Cons.IH[OF b'(1)] b'(2) show ?thesis by simp
  qed
qed

lemma regex_exec_leftmost:
  "regex_exec here s = Some r \<Longrightarrow>
     \<exists>pre t. s = pre @ t \<and> here t = Some r
       \<and> (\<forall>p q. s = p @ q \<and> length p < length pre \<longrightarrow> here q = None)"
proof (induction s)
  case Nil
  then show ?case by simp
next
  case (Cons c cs)
  show ?case
  proof (cases "here (c # cs)")
    case None
    with Cons obtain pre t where pt: "cs = pre @ t" "here t = Some r"
      and lm: "\<forall>p q. cs = p @ q \<and> length p < length pre \<longrightarrow> here q = None" by auto
    have "here q = None" if "c # cs = p @ q" "length p < length (c # pre)" for p q
    proof (cases p)
      case Nil
      with that None show ?thesis by simp
    next
      case (Cons c' p')
      with that lm show ?thesis by auto
    qed
    moreover from pt have "c # cs = (c # pre) @ t" by simp
    ultimately show ?thesis using pt(2) by blast
  next
    case (Some x)
    with Cons.prems have "here (c # cs) = Some r" by simp
    then have "c # cs = [] @ (c # cs) \<and> here (c # cs) = Some r
       \<and> (\<forall>p q. c # cs = p @ q \<and> length p < length ([] :: jsstring) \<longrightarrow> here q = None)"
      by simp
    then show ?thesis by blast
  qed
qed

lemma block_here_nearest:
  "block_here t = Some (content, rest) \<Longrightarrow>
     content @ close_marker @ rest = u @ close_marker @ w \<Longrightarrow> length content \<le> length u"
proof -
  assume b: "block_here t = Some (content, rest)"
    and e: "content @ close_marker @ rest = u @ close_marker @ w"
  from b have f: "find_first close_marker (drop (length open_marker) t) = Some (content, rest)"
    by (simp add: block_here_def split: if_splits)
  from find_first_decomp[OF f] e have "drop (length open_marker) t = u @ close_marker @ w"
    by simp
  with f show ?thesis by (rule find_first_minimal)
qed

lemma blocks_in_order:
  "\<exists>gaps tail. length gaps = length (blocks input)
     \<and> input = concat (map (\<lambda>(g, b). g @ b) (zip gaps (blocks input))) @ tail"
proof (induction input rule: blocks.induct)
  case (1 input)
  show ?case
  proof (cases "regex_exec block_here input")
    case None
    then have "blocks input = []" by (rule blocks_Nil)
    then show ?thesis by simp
  next
    case (Some m)
    obtain content rest where m: "m = (content, rest)" by (cases m)
    let ?b = "open_marker @ content @ close_marker"
    from Some m have bl: "blocks input = ?b # blocks rest" by (simp add: blocks_Cons)
    from Some m obtain pre where pre: "input = pre @ ?b @ rest"
      by (auto dest!: regex_exec_Some block_here_decomp)
    from "1.IH"[OF Some m[symmetric]] obtain gaps tail where
      g: "length gaps = length (blocks rest)"
        "rest = concat (map (\<lambda>(g, b). g @ b) (zip gaps (blocks rest))) @ tail" by blast
    have "length (pre # gaps) = length (blocks input)" using g(1) bl by simp
    moreover have "input = concat (map (\<lambda>(g, b). g @ b) (zip (pre # gaps) (blocks input))) @ tail"
      using pre g(2) bl by simp
    ultimately show ?thesis by blast
  qed
qed

lemma find_first_found: "s = u @ p @ w \<Longrightarrow> \<exists>b a. find_first p s = Some (b, a)"
proof (induction s arbitrary: u)
  case Nil
  then show ?case by simp
next
  case (Cons c cs)
  show ?case
  proof (cases "prefix p (c # cs)")
    case True
    then show ?thesis by simp
  next
    case False
    with Cons.prems have "u \<noteq> []" by auto
    with Cons.prems obtain u' where "u = c # u'" "cs = u' @ p @ w"
      by (cases u) auto
    from Cons.IH[OF this(2)] False show ?thesis by auto
  qed
qed

lemma block_here_found:
  "\<exists>content rest. block_here (open_marker @ b @ close_marker @ w) = Some (content, rest)"
  using find_first_found[of "b @ close_marker @ w" b close_marker w]
  by (simp add: block_here_def)

lemma regex_exec_found: "here t = Some r \<Longrightarrow> \<exists>r'. regex_exec here (pre @ t) = Some r'"
proof (induction pre)
  case Nil
  then show ?case by (cases t) simp_all
next
  case (Cons c pre)
  then show ?case by (cases "here (c # pre @ t)") simp_all
qed

lemma regex_exec_block_None:
  "regex_exec block_here input = None \<longleftrightarrow>
     \<not> (\<exists>a b c. input = a @ open_marker @ b @ close_marker @ c)"
proof
  assume n: "regex_exec block_here input = None"
  show "\<not> (\<exists>a b c. input = a @ open_marker @ b @ close_marker @ c)"
  proof
    assume "\<exists>a b c. input = a @ open_marker @ b @ close_marker @ c"
    then obtain a b c where i: "input = a @ open_marker @ b @ close_marker @ c" by blast
    obtain content rest where "block_here (open_marker @ b @ close_marker @ c) = Some (content, rest)"
      using block_here_found by blast
    from regex_exec_found[of block_here "open_marker @ b @ close_marker @ c" "(content, rest)" a]
      this i n
    show False by simp
  qed
next
  assume a: "\<not> (\<exists>a b c. input = a @ open_marker @ b @ close_marker @ c)"
  show "regex_exec block_here input = None"
  proof (rule ccontr)
    assume "regex_exec block_here input \<noteq> None"
    then obtain content rest where "regex_exec block_here input = Some (content, rest)" by auto
    then obtain pre t where "input = pre @ t" "block_here t = Some (content, rest)"
      by (auto dest!: regex_exec_Some)
    then have "input = pre @ open_marker @ content @ close_marker @ rest"
      by (simp add: block_here_decomp)
    with a show False by blast
  qed
qed

lemma append_eq_longer:
  assumes "p @ a = pre @ b" "length p < length pre"
  shows "\<exists>x. x \<noteq> [] \<and> pre = p @ x \<and> a = x @ b"
proof -
  from assms(1) have t: "p = take (length p) (pre @ b)" and d: "a = drop (length p) (pre @ b)"
    by (simp_all add: append_eq_conv_conj)
  from t assms(2) have "p = take (length p) pre" by simp
  then have "pre = p @ drop (length p) pre" by (metis append_take_drop_id)
  moreover from d assms(2) have "a = drop (length p) pre @ b" by simp
  moreover from assms(2) have "drop (length p) pre \<noteq> []" by simp
  ultimately show ?thesis by blast
qed

lemma block_first_opening:
  assumes "input = pre @ open_marker @ content @ close_marker @ rest"
    and "\<forall>p q. input = p @ q \<and> length p < length pre \<longrightarrow> block_here q = None"
    and "input = p @ open_marker @ q"
  shows "length pre \<le> length p"
proof (rule ccontr)
  assume "\<not> length pre \<le> length p"
  then have lt: "length p < length pre" by simp
  with assms(2,3) have none: "block_here (open_marker @ q) = None" by blast
  from assms(1,3) have "p @ (open_marker @ q) = pre @ (open_marker @ content @ close_marker @ rest)"
    by simp
  from append_eq_longer[OF this lt] obtain x where "x \<noteq> []" and x: "pre = p @ x"
    "open_marker @ q = x @ open_marker @ content @ close_marker @ rest"
    by blast
  have le: "length open_marker \<le> length (x @ open_marker @ content)" by simp
  have "q = drop (length open_marker) (open_marker @ q)" by simp
  also have "\<dots> = drop (length open_marker) ((x @ open_marker @ content) @ close_marker @ rest)"
    by (simp only: x(2) append_assoc)
  also have "\<dots> = drop (length open_marker) (x @ open_marker @ content) @ close_marker @ rest"
    using le by simp
  finally have "open_marker @ q =
      open_marker @ drop (length open_marker) (x @ open_marker @ content) @ close_marker @ rest"
    by simp
  with block_here_found[of "drop (length open_marker) (x @ open_marker @ content)" rest] none
  show False by simp
qed

lemma parseToolRequest_raw: "parseToolRequest depth b = Inr r \<Longrightarrow> raw r = b"
  by (auto simp: parseToolRequest_def requestOfParams_def Let_def
      split: option.splits sum.splits if_splits jsval.splits)

lemma raw_built:
  "map raw (built (map (parseToolRequest depth) bs)) = filter (\<lambda>b. \<not> isl (parseToolRequest depth b)) bs"
proof (induction bs)
  case Nil
  then show ?case by simp
next
  case (Cons b bs)
  then show ?case
    by (cases "parseToolRequest depth b") (simp_all add: parseToolRequest_raw)
qed

lemma parseToolRequests_loop_returns:
  assumes "parseToolRequests_loop build requests warned input = (Inr out, logged)"
  shows "list_all (\<lambda>b. \<not> unexpected (build b)) (blocks input)"
proof (rule ccontr)
  assume "\<not> list_all (\<lambda>b. \<not> unexpected (build b)) (blocks input)"
  then have "\<exists>b \<in> set (blocks input). unexpected (build b)" by (simp add: list_all_iff)
  then obtain before b after where s: "blocks input = before @ b # after"
    "unexpected (build b)" "\<forall>y \<in> set before. \<not> unexpected (build y)"
    using split_list_first_prop[of "blocks input" "\<lambda>b. unexpected (build b)"] by blast
  from s(2) obtain e where e: "build b = Inl e" "unexpected (Inl e)"
    by (cases "build b") simp_all
  from s(3) have "list_all (\<lambda>b. \<not> unexpected (build b)) before" by (simp add: list_all_iff)
  from parseToolRequests_loop_abort[OF s(1) this e] assms show False by simp
qed

text \<open>
  C7. The loop of \<open>parseToolRequests\<close> finds a match exactly when the text holds an
  opening marker with a closing marker somewhere after it. The match starts at the first
  opening marker of the text and ends with the first closing marker after that opening
  marker, whatever stands between them (an opening marker too). The loop goes on in the
  text after the match, so the blocks it matches lie in the text one after the other in
  the order of the list. What the call returns is a list, computed when the call
  returns: it holds the requests of the blocks that build, in the order of the blocks;
  and the call returns when no build throws an error other than an \<open>XmlParseError\<close>.
\<close>

theorem parseToolRequests_matching:
  "(regex_exec block_here text = None \<longleftrightarrow>
      \<not> (\<exists>a b c. text = a @ open_marker @ b @ close_marker @ c))
   \<and> (regex_exec block_here text = Some (content, rest) \<longrightarrow>
      (\<exists>before. text = before @ open_marker @ content @ close_marker @ rest
         \<and> (\<forall>p q. text = p @ open_marker @ q \<longrightarrow> length before \<le> length p))
      \<and> (\<forall>u w. content @ close_marker @ rest = u @ close_marker @ w \<longrightarrow>
            length content \<le> length u)
      \<and> blocks text = (open_marker @ content @ close_marker) # blocks rest)
   \<and> (regex_exec block_here text = None \<longrightarrow> blocks text = [])
   \<and> (\<exists>gaps tail. length gaps = length (blocks text)
        \<and> text = concat (map (\<lambda>(g, b). g @ b) (zip gaps (blocks text))) @ tail)
   \<and> (parseToolRequests depth text = (Inr requests, warned) \<longrightarrow>
        map raw requests = filter (\<lambda>b. \<not> isl (parseToolRequest depth b)) (blocks text))
   \<and> (list_all (\<lambda>b. \<not> unexpected (parseToolRequest depth b)) (blocks text) \<longrightarrow>
        (\<exists>requests warned. parseToolRequests depth text = (Inr requests, warned)))"
proof -
  have z: "regex_exec block_here text = None \<longleftrightarrow>
      \<not> (\<exists>a b c. text = a @ open_marker @ b @ close_marker @ c)"
    by (rule regex_exec_block_None)
  have a: "(\<exists>before. text = before @ open_marker @ content @ close_marker @ rest
         \<and> (\<forall>p q. text = p @ open_marker @ q \<longrightarrow> length before \<le> length p))
      \<and> (\<forall>u w. content @ close_marker @ rest = u @ close_marker @ w \<longrightarrow>
            length content \<le> length u)
      \<and> blocks text = (open_marker @ content @ close_marker) # blocks rest"
    if m: "regex_exec block_here text = Some (content, rest)"
  proof -
    from regex_exec_leftmost[OF m] obtain pre t where
      pt: "text = pre @ t" "block_here t = Some (content, rest)"
      and lm: "\<forall>p q. text = p @ q \<and> length p < length pre \<longrightarrow> block_here q = None" by blast
    from pt have d: "text = pre @ open_marker @ content @ close_marker @ rest"
      by (simp add: block_here_decomp)
    have "\<forall>p q. text = p @ open_marker @ q \<longrightarrow> length pre \<le> length p"
      using block_first_opening[OF d lm] by blast
    with d have "\<exists>before. text = before @ open_marker @ content @ close_marker @ rest
         \<and> (\<forall>p q. text = p @ open_marker @ q \<longrightarrow> length before \<le> length p)"
      by blast
    moreover have "\<forall>u w. content @ close_marker @ rest = u @ close_marker @ w \<longrightarrow>
            length content \<le> length u"
      using block_here_nearest[OF pt(2)] by blast
    moreover have "blocks text = (open_marker @ content @ close_marker) # blocks rest"
      using m by (rule blocks_Cons)
    ultimately show ?thesis by blast
  qed
  have b: "regex_exec block_here text = None \<longrightarrow> blocks text = []"
    by (simp add: blocks_Nil)
  have c: "\<exists>gaps tail. length gaps = length (blocks text)
        \<and> text = concat (map (\<lambda>(g, b). g @ b) (zip gaps (blocks text))) @ tail"
    by (rule blocks_in_order)
  have ok: "parseToolRequests depth text =
        (Inr (built (map (parseToolRequest depth) (blocks text))),
         skipped (map (parseToolRequest depth) (blocks text)))"
    if "list_all (\<lambda>b. \<not> unexpected (parseToolRequest depth b)) (blocks text)"
    using that
    by (simp add: parseToolRequests_def parseToolRequests_with_def parseToolRequests_loop_ok)
  have d: "map raw requests = filter (\<lambda>b. \<not> isl (parseToolRequest depth b)) (blocks text)"
    if r: "parseToolRequests depth text = (Inr requests, warned)"
  proof -
    from r have "list_all (\<lambda>b. \<not> unexpected (parseToolRequest depth b)) (blocks text)"
      unfolding parseToolRequests_def parseToolRequests_with_def
      by (rule parseToolRequests_loop_returns)
    from ok[OF this] r have "requests = built (map (parseToolRequest depth) (blocks text))"
      by simp
    then show ?thesis by (simp only: raw_built)
  qed
  have e: "list_all (\<lambda>b. \<not> unexpected (parseToolRequest depth b)) (blocks text) \<longrightarrow>
        (\<exists>requests warned. parseToolRequests depth text = (Inr requests, warned))"
    using ok by blast
  from z a b c d e show ?thesis by blast
qed

text \<open>
  The opening marker twice before the first closing marker: the block runs from the
  first opening marker to that closing marker, and what follows holds no block, having
  no opening marker before its closing marker.
\<close>

theorem parseToolRequests_matching_witness:
  "regex_exec block_here (js ''x<use_mcp_tool>a<use_mcp_tool>b</use_mcp_tool>c</use_mcp_tool>'')
     = Some (js ''a<use_mcp_tool>b'', js ''c</use_mcp_tool>'')
   \<and> regex_exec block_here (js ''c</use_mcp_tool>'') = None
   \<and> blocks (js ''x<use_mcp_tool>a<use_mcp_tool>b</use_mcp_tool>c</use_mcp_tool>'')
     = [js ''<use_mcp_tool>a<use_mcp_tool>b</use_mcp_tool>'']
   \<and> parseToolRequests 3 (js ''x<use_mcp_tool>a<use_mcp_tool>b</use_mcp_tool>c</use_mcp_tool>'')
     = (Inr [], [Msg (js ''Missing server_name in tool request'')])"
proof -
  let ?t = "js ''x<use_mcp_tool>a<use_mcp_tool>b</use_mcp_tool>c</use_mcp_tool>''"
  have m: "regex_exec block_here ?t = Some (js ''a<use_mcp_tool>b'', js ''c</use_mcp_tool>'')"
    by (simp add: regex_eval string_eval)
  have n: "regex_exec block_here (js ''c</use_mcp_tool>'') = None"
    by (simp add: regex_eval string_eval)
  from parseToolRequests_matching[of ?t "js ''a<use_mcp_tool>b''" "js ''c</use_mcp_tool>''"] m
  have "blocks ?t = (open_marker @ js ''a<use_mcp_tool>b'' @ close_marker)
          # blocks (js ''c</use_mcp_tool>'')"
    by blast
  moreover from parseToolRequests_matching[of "js ''c</use_mcp_tool>''"] n
  have "blocks (js ''c</use_mcp_tool>'') = []" by blast
  ultimately have bl: "blocks ?t = [js ''<use_mcp_tool>a<use_mcp_tool>b</use_mcp_tool>'']"
    by (simp add: open_marker_def close_marker_def js_def)
  have r: "parseToolRequest 3 (js ''<use_mcp_tool>a<use_mcp_tool>b</use_mcp_tool>'')
      = Inl (XmlParseError (Msg (js ''Missing server_name in tool request'')))"
    by (simp add: parser_eval regex_eval string_eval number_eval)
  have p: "parseToolRequests 3 ?t = (Inr [], [Msg (js ''Missing server_name in tool request'')])"
    by (simp add: parseToolRequests_def parseToolRequests_with_def parseToolRequests_loop_ok bl r)
  from m n bl p show ?thesis by blast
qed

section \<open>The texts normalizeValue reads as numbers\<close>

lemma dropWhile_rev_keeps_head:
  assumes "xs = [] \<or> \<not> P (hd xs)"
  shows "dropWhile P (rev (dropWhile P (rev xs))) = rev (dropWhile P (rev xs))"
proof (cases xs)
  case Nil
  then show ?thesis by simp
next
  case (Cons x xs')
  with assms have nx: "\<not> P x" by simp
  have "\<exists>ys. dropWhile P (rev xs' @ [x]) = ys @ [x]"
  proof (cases "\<forall>y \<in> set (rev xs'). P y")
    case True
    then have "dropWhile P (rev xs' @ [x]) = dropWhile P [x]"
      by (intro dropWhile_append2) simp
    with nx show ?thesis by simp
  next
    case False
    then obtain y where "y \<in> set (rev xs')" "\<not> P y" by blast
    then have "dropWhile P (rev xs' @ [x]) = dropWhile P (rev xs') @ [x]"
      by (rule dropWhile_append1)
    then show ?thesis by blast
  qed
  then obtain ys where "dropWhile P (rev xs) = ys @ [x]" using Cons by auto
  with nx show ?thesis by simp
qed

lemma trim_idem: "trim (trim s) = trim s"
proof -
  have h: "dropWhile is_js_space s = [] \<or> \<not> is_js_space (hd (dropWhile is_js_space s))"
    using hd_dropWhile[of is_js_space s] by blast
  show ?thesis
    unfolding trim_def
    using dropWhile_rev_keeps_head[of "dropWhile is_js_space s" is_js_space, OF h] by simp
qed

lemma round_binary64_not_NaN: "round_binary64 neg q \<noteq> NaN"
  by (simp add: round_binary64_def Let_def)

lemma str_decimal_not_NaN:
  "str_decimal neg s \<noteq> NaN \<longleftrightarrow> s = js ''Infinity'' \<or> unsigned_decimal s \<noteq> None"
  by (auto simp: str_decimal_def round_binary64_not_NaN split: option.splits)

lemma non_decimal_not_NaN: "non_decimal t = Some n \<Longrightarrow> n \<noteq> NaN"
  by (auto simp: non_decimal_def round_binary64_not_NaN split: list.splits if_splits)

lemma unsigned_decimal_Infinity: "unsigned_decimal (js ''Infinity'') = None"
  by (simp add: unsigned_decimal_def js_def is_digit_def)

lemma Number_not_NaN:
  assumes "trim t = t" "t \<noteq> []"
  shows "Number t \<noteq> NaN \<longleftrightarrow> decimal_literal t \<or> infinity_literal t \<or> non_decimal_literal t"
proof (cases "non_decimal t")
  case (Some n)
  with assms non_decimal_not_NaN[OF Some] show ?thesis
    by (simp add: Number_def non_decimal_literal_def)
next
  case None
  from assms(2) obtain c r where t: "t = c # r" by (cases t) auto
  have i: "js ''Infinity'' = 73 # js ''nfinity''" "js ''+Infinity'' = 43 # js ''Infinity''"
    "js ''-Infinity'' = 45 # js ''Infinity''"
    by (simp_all add: js_def)
  show ?thesis
  proof (cases "c = 43 \<or> c = 45")
    case True
    with assms None t show ?thesis
      by (auto simp: Number_def non_decimal_literal_def str_decimal_not_NaN decimal_literal_def
          infinity_literal_def i unsigned_decimal_Infinity)
  next
    case False
    with assms None t show ?thesis
      by (auto simp: Number_def non_decimal_literal_def str_decimal_not_NaN decimal_literal_def
          infinity_literal_def i)
  qed
qed

lemma json_members_object:
  "json_members n acc s = Parsed v r \<Longrightarrow> \<exists>ob. v = JObj None ob"
proof (induction n arbitrary: acc s)
  case 0
  then show ?case by simp
next
  case (Suc n)
  from Suc.prems show ?case
    by (auto split: list.splits if_splits option.splits parse.splits dest: Suc.IH)
qed

lemma json_elements_array:
  "json_elements n acc s = Parsed v r \<Longrightarrow> \<exists>xs. v = JArr xs"
proof (induction n arbitrary: acc s)
  case 0
  then show ?case by simp
next
  case (Suc n)
  from Suc.prems show ?case
    by (auto split: list.splits if_splits option.splits parse.splits dest: Suc.IH)
qed

lemma json_value_structured:
  assumes "json_value n s = Parsed x rest" "json_ws s = c # r" "c = 123 \<or> c = 91"
  shows "(\<exists>ob. x = JObj None ob) \<or> (\<exists>xs. x = JArr xs)"
proof (cases n)
  case 0
  with assms(1) show ?thesis by simp
next
  case (Suc k)
  with assms show ?thesis
    by (auto split: list.splits if_splits dest: json_members_object json_elements_array)
qed

lemma JSON_parse_structured:
  assumes "startsWith t (js ''{'') \<or> startsWith t (js ''['')" "JSON_parse t = Some x"
  shows "\<forall>n. x \<noteq> JNum n"
proof -
  from assms(1) obtain c r where t: "t = c # r" "c = 123 \<or> c = 91"
    by (cases t) (auto simp: startsWith_def js_def)
  then have w: "json_ws t = c # r" by (auto simp: json_ws_def)
  from assms(2) obtain rest where "json_value (Suc (2 * length t)) t = Parsed x rest"
    by (auto simp: JSON_parse_def split: parse.splits if_splits)
  from json_value_structured[OF this w t(2)] show ?thesis by auto
qed

lemma normalizeValue_number:
  "(\<exists>n. normalizeValue v = JNum n) \<longleftrightarrow>
     trim v \<noteq> [] \<and> \<not> rule_boolean (trim v) \<and> Number (trim v) \<noteq> NaN"
  using true_not_false JSON_parse_structured[of "trim v"]
  by (auto simp: normalizeValue_def Let_def rule_boolean_def isNaN_def split: option.splits)

text \<open>
  C6, as the code has it. \<open>normalizeValue\<close> gives a Number for a text that is not empty
  and not a boolean word exactly when \<^verbatim>\<open>Number\<close> of the trimmed text is not NaN: when
  the entire trimmed text is a decimal literal (an optional sign, digits with an optional
  fraction, an optional exponent), or \<^verbatim>\<open>Infinity\<close> with an optional sign, or an unsigned
  integer written with \<^verbatim>\<open>0x\<close>, \<^verbatim>\<open>0o\<close> or \<^verbatim>\<open>0b\<close>. The Number is the value of that text,
  which may be infinite.
\<close>

theorem normalizeValue_number_texts:
  "trim v \<noteq> [] \<and> \<not> rule_boolean (trim v) \<longrightarrow>
     ((\<exists>n. normalizeValue v = JNum n) \<longleftrightarrow>
        decimal_literal (trim v) \<or> infinity_literal (trim v) \<or> non_decimal_literal (trim v))
     \<and> ((\<exists>n. normalizeValue v = JNum n) \<longleftrightarrow> rule_number (trim v))
     \<and> ((\<exists>n. normalizeValue v = JNum n) \<longrightarrow> normalizeValue v = JNum (Number (trim v)))"
proof (intro impI, elim conjE)
  assume ne: "trim v \<noteq> []" and nb: "\<not> rule_boolean (trim v)"
  have n: "(\<exists>n. normalizeValue v = JNum n) \<longleftrightarrow> Number (trim v) \<noteq> NaN"
    using ne nb by (simp add: normalizeValue_number)
  have g: "Number (trim v) \<noteq> NaN \<longleftrightarrow>
      decimal_literal (trim v) \<or> infinity_literal (trim v) \<or> non_decimal_literal (trim v)"
    using ne by (intro Number_not_NaN) (simp_all add: trim_idem)
  have r: "Number (trim v) \<noteq> NaN \<longleftrightarrow> rule_number (trim v)"
    by (simp add: rule_number_def isNaN_def)
  have e: "Number (trim v) \<noteq> NaN \<longrightarrow> normalizeValue v = JNum (Number (trim v))"
    using ne nb
    by (auto simp: normalizeValue_def Let_def rule_boolean_def isNaN_def)
  from n g r e show "((\<exists>n. normalizeValue v = JNum n) \<longleftrightarrow>
        decimal_literal (trim v) \<or> infinity_literal (trim v) \<or> non_decimal_literal (trim v))
     \<and> ((\<exists>n. normalizeValue v = JNum n) \<longleftrightarrow> rule_number (trim v))
     \<and> ((\<exists>n. normalizeValue v = JNum n) \<longrightarrow> normalizeValue v = JNum (Number (trim v)))"
    by blast
qed

text \<open>
  A decimal literal with a sign, a fraction and an exponent is a Number, the value of
  the whole text; with a letter after it, it is not.
\<close>

theorem normalizeValue_number_texts_witness:
  "trim (js '' -1.5e3 '') = js ''-1.5e3'' \<and> js ''-1.5e3'' \<noteq> []
   \<and> \<not> rule_boolean (js ''-1.5e3'') \<and> decimal_literal (js ''-1.5e3'')
   \<and> normalizeValue (js '' -1.5e3 '') = JNum (Fin (- 1500))
   \<and> \<not> decimal_literal (js ''-1.5e3x'')
   \<and> normalizeValue (js ''-1.5e3x'') = JStr (js ''-1.5e3x'')"
proof -
  have t: "trim (js '' -1.5e3 '') = js ''-1.5e3''" by (simp add: string_eval)
  have ne: "js ''-1.5e3'' \<noteq> []" by (simp add: js_def)
  have nb: "\<not> rule_boolean (js ''-1.5e3'')"
    by (simp add: rule_boolean_def string_eval)
  have d: "decimal_literal (js ''-1.5e3'')"
    by (simp add: decimal_literal_def string_eval number_eval)
  have v: "Number (js ''-1.5e3'') = Fin (- 1500)"
    by (simp add: string_eval number_eval)
  from normalizeValue_number_texts[of "js '' -1.5e3 ''"] ne nb d
  have "normalizeValue (js '' -1.5e3 '') = JNum (Number (js ''-1.5e3''))"
    by (simp add: t)
  with v have n: "normalizeValue (js '' -1.5e3 '') = JNum (Fin (- 1500))" by simp
  have x: "\<not> decimal_literal (js ''-1.5e3x'')"
    by (simp add: decimal_literal_def string_eval number_eval)
  have s: "normalizeValue (js ''-1.5e3x'') = JStr (js ''-1.5e3x'')"
    by (simp add: normalizeValue_def string_eval number_eval)
  from t ne nb d n x s show ?thesis by blast
qed

text \<open>
  Against C6 as it is stated: the text \<^verbatim>\<open>Infinity\<close> is given a Number that is not finite,
  and the text \<^verbatim>\<open>0x1F\<close>, which is no decimal literal, is given the Number 31.
\<close>

theorem normalizeValue_number_texts_counterexample:
  "normalizeValue (js ''Infinity'') = JNum PosInf
   \<and> \<not> finite_number PosInf
   \<and> \<not> decimal_literal (js ''Infinity'')
   \<and> normalizeValue (js ''0x1F'') = JNum (Fin 31)
   \<and> \<not> decimal_literal (js ''0x1F'')"
proof -
  have a: "normalizeValue (js ''Infinity'') = JNum PosInf"
    by (simp add: normalizeValue_def string_eval number_eval)
  have b: "\<not> decimal_literal (js ''Infinity'')"
    by (simp add: decimal_literal_def string_eval number_eval)
  have c: "normalizeValue (js ''0x1F'') = JNum (Fin 31)"
    by (simp add: normalizeValue_def string_eval number_eval)
  have d: "\<not> decimal_literal (js ''0x1F'')"
    by (simp add: decimal_literal_def string_eval number_eval)
  from a b c d show ?thesis by simp
qed

end
